theory Spec2Isabelle
  imports Complex_Main "HOL-Library.Product_Lexorder"
begin

section \<open>Errors\<close>

text \<open>
  The exceptions the modelled Python can raise. None of them is caught anywhere in
  the modelled functions, so an \<open>Inl\<close> result stands for the exception leaving
  the function.
\<close>

datatype py_error = IndexError | KeyError string | ValueError

section \<open>Paired merge (\<open>heapq_merge_generator_from\<close>)\<close>



text \<open>
  The body of the \<open>for\<close> loop over the merged events, with the set
  \<open>normal_candidates_set\<close> as the state and the yielded positions as the result.
\<close>

fun merge_loop :: "bool \<Rightarrow> int set \<Rightarrow> (int \<times> bool) list \<Rightarrow> int list \<times> int set" where
  "merge_loop skip_if_normal_empty normal_candidates_set [] = ([], normal_candidates_set)"
| "merge_loop skip_if_normal_empty normal_candidates_set ((pos, is_tumor) # es) =
     (if is_tumor then
        (if pos \<in> normal_candidates_set \<or> \<not> skip_if_normal_empty then
           (let (ys, s) = merge_loop skip_if_normal_empty (normal_candidates_set - {pos}) es
            in (pos # ys, s))
         else merge_loop skip_if_normal_empty normal_candidates_set es)
      else merge_loop skip_if_normal_empty (insert pos normal_candidates_set) es)"


section \<open>Pileup decoder (\<open>decode_pileup_bases\<close>)\<close>

text \<open>
  Strings are ASCII, as the pileup tool writes them. \<open>isdigit\<close> and
  \<open>int\<close> on one character, and \<open>upper\<close> on one character.
\<close>

definition isdigit :: "char \<Rightarrow> bool" where
  "isdigit c = (c \<in> set ''0123456789'')"

definition digit_value :: "char \<Rightarrow> nat" where
  "digit_value c = (case map_of (zip ''0123456789'' [0, 1, 2, 3, 4, 5, 6, 7, 8, 9]) c of
                      Some d \<Rightarrow> d | None \<Rightarrow> 0)"

definition upper :: "char \<Rightarrow> char" where
  "upper c = (case map_of (zip ''abcdefghijklmnopqrstuvwxyz'' ''ABCDEFGHIJKLMNOPQRSTUVWXYZ'') c of
                Some u \<Rightarrow> u | None \<Rightarrow> c)"

text \<open>
  One entry of \<open>base_list\<close> is the two-element list \<open>[base, indel]\<close>, where
  \<open>base\<close> is one character and \<open>indel\<close> is empty or starts with the sign.
\<close>

type_synonym base_info = "char \<times> string"

text \<open>
  The inner \<open>while True\<close> loop that reads the length of an indel. The argument is
  the rest of the string from \<open>base_idx\<close> on; reading at the end of the string
  raises.
\<close>

fun read_advance :: "string \<Rightarrow> nat \<Rightarrow> py_error + (nat \<times> string)" where
  "read_advance [] advance = Inl IndexError"
| "read_advance (num # rest) advance =
     (if isdigit num then read_advance rest (advance * 10 + digit_value num)
      else Inr (advance, num # rest))"

lemma read_advance_length:
  "read_advance cs a = Inr (n, r) \<Longrightarrow> length r \<le> length cs"
  by (induction cs a rule: read_advance.induct) (auto split: if_splits)

text \<open>
  The outer \<open>while\<close> loop, on the rest of the string from \<open>base_idx\<close> on.
  \<open>base_list[-1]\<close> raises on an empty list.
\<close>

function decode_loop :: "string \<Rightarrow> base_info list \<Rightarrow> py_error + base_info list" where
  "decode_loop [] base_list = Inr base_list"
| "decode_loop (base # rest) base_list =
     (if base = CHR ''+'' \<or> base = CHR ''-'' then
        (case read_advance rest 0 of
           Inl e \<Rightarrow> Inl e
         | Inr (advance, rest') \<Rightarrow>
             (if base_list = [] then Inl IndexError
              else decode_loop (drop advance rest')
                     (butlast base_list @ [(fst (last base_list), base # take advance rest')])))
      else if base \<in> set ''ACGTNacgtn#*'' then decode_loop rest (base_list @ [(base, [])])
      else if base = CHR ''^'' then decode_loop (drop 1 rest) base_list
      else decode_loop rest base_list)"
  by pat_completeness auto
termination
  by (relation "measure (\<lambda>(s, b). length s)") (auto dest: read_advance_length)

text \<open>
  \<open>Counter\<close> and \<open>defaultdict(int)\<close> keep their keys in the order of first
  insertion; \<open>dict_add d k n\<close> is \<open>d[k] += n\<close>.
\<close>

fun dict_add :: "('k \<times> nat) list \<Rightarrow> 'k \<Rightarrow> nat \<Rightarrow> ('k \<times> nat) list" where
  "dict_add [] k n = [(k, n)]"
| "dict_add ((k', c) # d) k n = (if k' = k then (k', c + n) # d else (k', c) # dict_add d k n)"

definition Counter :: "'k list \<Rightarrow> ('k \<times> nat) list" where
  "Counter xs = foldl (\<lambda>d x. dict_add d x 1) [] xs"

text \<open>
  The loop over \<open>base_counter.items()\<close>. A key is the join of \<open>base\<close> and
  \<open>indel\<close>, kept here as the pair: \<open>key[0]\<close> is the base, and \<open>key[1]\<close>,
  when the key is longer than one character, the first character of the indel.
\<close>

definition count_step :: "(char \<times> nat) list \<times> nat \<Rightarrow> base_info \<times> nat \<Rightarrow> (char \<times> nat) list \<times> nat" where
  "count_step st kc =
     (let (pileup_dict, depth) = st; ((base, indel), count) = kc;
          (pileup_dict, depth) =
             (if upper base \<in> set ''ACGT'' then (dict_add pileup_dict (upper base) count, depth + count)
              else if base \<in> set ''#*'' then (pileup_dict, depth + count)
              else (pileup_dict, depth));
          pileup_dict =
             (if indel \<noteq> [] \<and> hd indel = CHR ''+'' then dict_add pileup_dict CHR ''I'' count
              else if indel \<noteq> [] \<and> hd indel = CHR ''-'' then dict_add pileup_dict CHR ''D'' count
              else pileup_dict)
      in (pileup_dict, depth))"

text \<open>
  The loop over the sorted \<open>pileup_list\<close>, with \<open>(pass_snv_af, pass_indel_af)\<close>
  as the state. The quotient \<open>float(count) / denominator\<close> is taken exactly.
\<close>

fun af_loop :: "char \<Rightarrow> nat \<Rightarrow> rat \<Rightarrow> rat \<Rightarrow> (char \<times> nat) list \<Rightarrow> bool \<times> bool \<Rightarrow> bool \<times> bool" where
  "af_loop reference_base denominator snv_af indel_af [] st = st"
| "af_loop reference_base denominator snv_af indel_af ((item, count) # pileup_list)
       (pass_snv_af, pass_indel_af) =
     (if pass_snv_af \<or> pass_indel_af then (pass_snv_af, pass_indel_af)
      else if item = reference_base then
        af_loop reference_base denominator snv_af indel_af pileup_list (pass_snv_af, pass_indel_af)
      else if item \<in> set ''ID'' then
        af_loop reference_base denominator snv_af indel_af pileup_list
          (pass_snv_af, pass_indel_af \<or> of_nat count / of_nat denominator \<ge> indel_af)
      else
        af_loop reference_base denominator snv_af indel_af pileup_list
          (pass_snv_af \<or> of_nat count / of_nat denominator \<ge> snv_af, pass_indel_af))"

text \<open>
  The constants of \<open>shared.param\<close> that the modelled functions read. The module
  is not part of the sources, so they are parameters.
\<close>

record param =
  flankingBaseNum :: int
  no_of_positions :: int
  channel_size :: nat
  extend_bp :: int
  min_af :: rat
  min_af_dict :: "string \<Rightarrow> rat"
  normal_matrix_depth_dict :: "string \<Rightarrow> nat"
  tumor_matrix_depth_dict :: "string \<Rightarrow> nat"
  ont_input_shape :: "nat \<times> nat \<times> nat"
  input_shape :: "nat \<times> nat \<times> nat"

text \<open>
  The part of \<open>decode_pileup_bases\<close> after the early return: the counts, the two
  thresholds and the loop over the sorted counts. The result is \<open>(depth, pass_af, af)\<close>.
\<close>

definition af_gate ::
  "param \<Rightarrow> char \<Rightarrow> rat \<Rightarrow> rat \<Rightarrow> string \<Rightarrow> base_info list \<Rightarrow> nat \<times> bool \<times> rat" where
  "af_gate prm reference_base minimum_snv_af_for_candidate minimum_indel_af_for_candidate platform
       base_list =
     (let base_counter = Counter base_list;
          (pileup_dict, depth) = foldl count_step ([], 0) base_counter;
          snv_af = (if minimum_snv_af_for_candidate > 0 then minimum_snv_af_for_candidate
                    else min_af prm);
          indel_af = (if minimum_indel_af_for_candidate > 0 then minimum_indel_af_for_candidate
                      else min_af_dict prm platform);
          denominator = (if depth > 0 then depth else 1);
          pileup_list = sort_key (\<lambda>x. - int (snd x)) pileup_dict;
          (pass_snv_af, pass_indel_af) =
             af_loop reference_base denominator snv_af indel_af pileup_list (False, False);
          af = (if length pileup_list > 1 then of_nat (snd (pileup_list ! 1)) / of_nat denominator
                else 0);
          af = (if length pileup_list \<ge> 1 \<and> fst (pileup_list ! 0) \<noteq> reference_base
                then of_nat (snd (pileup_list ! 0)) / of_nat denominator else af);
          pass_af = (pass_snv_af \<or> pass_indel_af)
      in (depth, pass_af, af))"

text \<open>
  \<open>decode_pileup_bases\<close>. The result is \<open>(base_list, depth, pass_af, af)\<close>, with
  \<open>depth = None\<close> on the early return.
\<close>

definition decode_pileup_bases ::
  "param \<Rightarrow> int \<Rightarrow> string \<Rightarrow> char \<Rightarrow> rat \<Rightarrow> rat \<Rightarrow> bool \<Rightarrow> (int \<rightharpoonup> string) \<Rightarrow> bool \<Rightarrow> string
    \<Rightarrow> py_error + (base_info list \<times> nat option \<times> bool \<times> rat)" where
  "decode_pileup_bases prm pos pileup_bases reference_base minimum_snv_af_for_candidate
       minimum_indel_af_for_candidate has_pileup_candidates candidates_type_dict is_tumor platform =
     (case decode_loop pileup_bases [] of
        Inl e \<Rightarrow> Inl e
      | Inr base_list \<Rightarrow>
          if has_pileup_candidates \<and> (candidates_type_dict pos = None \<or> \<not> is_tumor)
          then Inr (base_list, None, True, 1)
          else
            (let (depth, pass_af, af) =
                   af_gate prm reference_base minimum_snv_af_for_candidate
                     minimum_indel_af_for_candidate platform base_list
             in Inr (base_list, Some depth, pass_af, af)))"

section \<open>Per-stream candidate generator (\<open>samtools_pileup_generator_from\<close>)\<close>

text \<open>Python's \<open>xs[i]\<close>: a negative index counts from the end, and an index out of
  range raises.\<close>

definition py_get :: "'a list \<Rightarrow> int \<Rightarrow> py_error + 'a" where
  "py_get xs i =
     (if 0 \<le> i \<and> i < int (length xs) then Inr (xs ! nat i)
      else if i < 0 \<and> - int (length xs) \<le> i then Inr (xs ! nat (int (length xs) + i))
      else Inl IndexError)"

text \<open>\<open>s.split(c)\<close> for a one-character separator.\<close>

fun split_on :: "char \<Rightarrow> string \<Rightarrow> string list" where
  "split_on c [] = [[]]"
| "split_on c (x # xs) =
     (if x = c then [] # split_on c xs
      else (case split_on c xs of w # ws \<Rightarrow> (x # w) # ws | [] \<Rightarrow> [[x]]))"

definition bind_err :: "'e + 'a \<Rightarrow> ('a \<Rightarrow> 'e + 'b) \<Rightarrow> 'e + 'b" where
  "bind_err m f = (case m of Inl e \<Rightarrow> Inl e | Inr x \<Rightarrow> f x)"

text \<open>
  The class \<open>Position\<close>, with the fields the modelled functions read or write.
  \<open>read_info\<close> is the dictionary from read name to \<open>(read_channel, ins_base)\<close>.
\<close>

record Position =
  pos :: int
  ref_base :: char
  read_name_list :: "string list"
  base_list :: "base_info list"
  raw_base_quality :: string
  raw_mapping_quality :: string
  af :: rat
  depth :: "nat option"
  update_info :: bool
  read_info :: "(string \<times> int list \<times> string) list"

text \<open>
  The variables of \<open>create_pair_tensor\<close> that the generator closes over. The
  interval tree of \<open>shared.interval_tree\<close> is not part of the sources:
  \<open>extend_bed_region_in a b\<close> stands for
  \<open>is_region_in(extend_bed_tree, ctg_name, a, b)\<close>. \<open>ctg_start = None\<close> stands
  for a missing start; \<open>ctg_end\<close> is read only next to a start.
\<close>

record gen_env =
  prm :: param
  candidates_pos_set :: "int list"
  is_extend_bed_file_given :: bool
  extend_bed_region_in :: "int \<Rightarrow> int \<Rightarrow> bool"
  ctg_start :: "int option"
  ctg_end :: int
  reference_sequence :: string
  reference_start :: int
  minimum_snv_af_for_candidate :: rat
  minimum_indel_af_for_candidate :: rat
  candidates_type_dict :: "int \<rightharpoonup> string"
  platform :: string
  is_known_vcf_file_provided :: bool
  known_variants_set :: "int set"
  min_coverage :: rat

text \<open>
  The state of one generator: its pileup dictionary and haplotype dictionary (both in
  insertion order), the candidate list and the cursor into it.
\<close>

record gen_state =
  pileup_dict :: "(int \<times> Position) list"
  hap_dict :: "(string \<times> int) list"
  candidate_pos_list :: "int list"
  current_pos_index :: nat

text \<open>One row of the pileup stream after the split at tabs, with the position parsed.\<close>

record pileup_row =
  row_pos :: int
  row_pileup_bases :: string
  row_raw_base_quality :: string
  row_raw_mapping_quality :: string
  row_read_names :: string
  row_phasing_info :: string

text \<open>\<open>d[k] = v\<close> on a dictionary kept in insertion order, and \<open>del d[k]\<close>.\<close>

fun dict_set :: "('k \<times> 'v) list \<Rightarrow> 'k \<Rightarrow> 'v \<Rightarrow> ('k \<times> 'v) list" where
  "dict_set [] k v = [(k, v)]"
| "dict_set ((k', v') # d) k v = (if k' = k then (k', v) # d else (k', v') # dict_set d k v)"

definition dict_del :: "('k \<times> 'v) list \<Rightarrow> 'k \<Rightarrow> ('k \<times> 'v) list" where
  "dict_del d k = filter (\<lambda>kv. fst kv \<noteq> k) d"

text \<open>
  The platform \<open>ilmn\<close> appends the strand to each read name, indexing the name list
  by the index of the base.
\<close>

definition is_lower :: "char \<Rightarrow> bool" where
  "is_lower c = (c \<in> set ''abcdefghijklmnopqrstuvwxyz'')"

fun ilmn_names :: "base_info list \<Rightarrow> string list \<Rightarrow> py_error + string list" where
  "ilmn_names [] names = Inr names"
| "ilmn_names (b # bs) [] = Inl IndexError"
| "ilmn_names (b # bs) (n # names) =
     bind_err (ilmn_names bs names)
       (\<lambda>rest. Inr ((n @ (if fst b = CHR ''#'' \<or> is_lower (fst b) then ''_1'' else ''_0'')) # rest))"

text \<open>
  The loop over \<open>phasing_info\<close>. \<open>hap in '12'\<close> is a substring test, true of
  the empty string, \<open>1\<close>, \<open>2\<close> and \<open>12\<close>; \<open>int\<close> of the empty string
  raises.
\<close>

fun hap_loop :: "(string \<times> int) list \<Rightarrow> (string \<times> string) list \<Rightarrow> py_error + (string \<times> int) list" where
  "hap_loop hp [] = Inr hp"
| "hap_loop hp ((name, hap) # rest) =
     (if hap \<in> {[], ''1'', ''2'', ''12''} \<and> name \<notin> fst ` set hp then
        (if hap = [] then Inl ValueError
         else hap_loop (dict_set hp name (if hap = ''1'' then 1 else if hap = ''2'' then 2 else 12)) rest)
      else hap_loop hp rest)"

text \<open>
  The loop that follows a yield: the keys are visited in increasing order and deleted
  while they lie more than \<open>extend_bp_distance\<close> below the yielded candidate.
\<close>

definition trim :: "int \<Rightarrow> int \<Rightarrow> (int \<times> Position) list \<Rightarrow> (int \<times> Position) list" where
  "trim cand extend_bp_distance d =
     foldl dict_del d (takeWhile (\<lambda>pre_pos. cand - pre_pos > extend_bp_distance) (sort (map fst d)))"

definition extend_bp_distance :: "param \<Rightarrow> int" where
  "extend_bp_distance p = no_of_positions p + extend_bp p"

text \<open>
  The two tests that append the position of the row to \<open>candidate_pos_list\<close>.
  \<open>depth\<close> is \<open>None\<close> only when candidates were given, and is then not compared.
\<close>

definition append_candidate :: "gen_env \<Rightarrow> int list \<Rightarrow> int \<Rightarrow> char \<Rightarrow> nat option \<Rightarrow> bool \<Rightarrow> int list" where
  "append_candidate env cands p reference_base dp pass_af =
     (let has_pileup_candidates = (candidates_pos_set env \<noteq> []);
          cands = cands @
            (if \<not> is_known_vcf_file_provided env \<and> \<not> has_pileup_candidates
                \<and> reference_base \<in> set ''ACGT''
                \<and> (pass_af \<and> (case dp of Some d \<Rightarrow> of_nat d \<ge> min_coverage env | None \<Rightarrow> False))
             then [p] else []);
          cands = cands @
            (if is_known_vcf_file_provided env \<and> \<not> has_pileup_candidates
                \<and> p \<in> known_variants_set env
             then [p] else [])
      in cands)"

text \<open>
  The body of the loop over the rows, from the test of the name list against the phasing
  column on. The result is the new state and the pair yielded at this row, if any.
\<close>

definition after_names ::
  "gen_env \<Rightarrow> bool \<Rightarrow> bool \<Rightarrow> gen_state \<Rightarrow> pileup_row \<Rightarrow> char \<Rightarrow> base_info list \<Rightarrow> nat option
     \<Rightarrow> bool \<Rightarrow> rat \<Rightarrow> string list \<Rightarrow> py_error + (gen_state \<times> (int \<times> bool) option)" where
  "after_names env is_tumor phasing_info_in_bam st row reference_base bl dp pass_af a names =
     (let p = row_pos row;
          phasing_info = split_on CHR '','' (row_phasing_info row)
      in if phasing_info_in_bam \<and> length names \<noteq> length phasing_info then Inr (st, None)
         else
           bind_err (if phasing_info_in_bam then hap_loop (hap_dict st) (zip names phasing_info)
                     else Inr (hap_dict st)) (\<lambda>hp.
           if length names \<noteq> length bl then Inr (st\<lparr>hap_dict := hp\<rparr>, None)
           else
             let cands = append_candidate env (candidate_pos_list st) p reference_base dp pass_af;
                 pd = dict_set (pileup_dict st) p
                        \<lparr>pos = p, ref_base = reference_base, read_name_list = names, base_list = bl,
                         raw_base_quality = row_raw_base_quality row,
                         raw_mapping_quality = row_raw_mapping_quality row,
                         af = a, depth = dp, update_info = False, read_info = []\<rparr>;
                 idx = current_pos_index st
             in if idx < length cands \<and> p - cands ! idx > extend_bp_distance (prm env) then
                  Inr (\<lparr>pileup_dict = trim (cands ! idx) (extend_bp_distance (prm env)) pd,
                        hap_dict = hp, candidate_pos_list = cands, current_pos_index = idx + 1\<rparr>,
                       Some (cands ! idx, is_tumor))
                else
                  Inr (\<lparr>pileup_dict = pd, hap_dict = hp, candidate_pos_list = cands,
                        current_pos_index = idx\<rparr>, None)))"

text \<open>
  The body of the loop over the rows. The call of \<open>decode_pileup_bases\<close> passes no
  platform, so its default \<open>ont\<close> applies.
\<close>

definition row_step ::
  "gen_env \<Rightarrow> bool \<Rightarrow> bool \<Rightarrow> gen_state \<Rightarrow> pileup_row \<Rightarrow> py_error + (gen_state \<times> (int \<times> bool) option)" where
  "row_step env is_tumor phasing_info_in_bam st row =
     (let p = row_pos row;
          has_pileup_candidates = (candidates_pos_set env \<noteq> []);
          pass_extend_bed = (\<not> is_extend_bed_file_given env \<or> extend_bed_region_in env (p - 1) (p + 1));
          pass_ctg_range = (case ctg_start env of None \<Rightarrow> True
                            | Some s \<Rightarrow> s = 0 \<or> (p \<ge> s \<and> p \<le> ctg_end env))
      in if \<not> has_pileup_candidates \<and> \<not> pass_extend_bed \<and> pass_ctg_range then Inr (st, None)
         else
           bind_err (py_get (reference_sequence env) (p - reference_start env)) (\<lambda>c.
           let reference_base = upper c
           in if reference_base \<notin> set ''ACGT'' then Inr (st, None)
              else
                bind_err (decode_pileup_bases (prm env) p (row_pileup_bases row) reference_base
                            (minimum_snv_af_for_candidate env) (minimum_indel_af_for_candidate env)
                            has_pileup_candidates (candidates_type_dict env) is_tumor ''ont'')
                  (\<lambda>(bl, dp, pass_af, a).
                bind_err (if platform env = ''ilmn''
                          then ilmn_names bl (split_on CHR '','' (row_read_names row))
                          else Inr (split_on CHR '','' (row_read_names row)))
                  (\<lambda>names.
                after_names env is_tumor phasing_info_in_bam st row reference_base bl dp pass_af a
                  names))))"

text \<open>
  The loop over the rows: the pairs yielded so far, and the state at the end of the
  stream or the exception that ended the generator.
\<close>

fun gen_rows ::
  "gen_env \<Rightarrow> bool \<Rightarrow> bool \<Rightarrow> gen_state \<Rightarrow> pileup_row list
     \<Rightarrow> (int \<times> bool) list \<times> (py_error + gen_state)" where
  "gen_rows env is_tumor phasing_info_in_bam st [] = ([], Inr st)"
| "gen_rows env is_tumor phasing_info_in_bam st (row # rows) =
     (case row_step env is_tumor phasing_info_in_bam st row of
        Inl e \<Rightarrow> ([], Inl e)
      | Inr (st', y) \<Rightarrow>
          (let (ys, r) = gen_rows env is_tumor phasing_info_in_bam st' rows
           in ((case y of None \<Rightarrow> [] | Some v \<Rightarrow> [v]) @ ys, r)))"

text \<open>The closing \<open>while\<close> loop, which yields the candidates left at the end of the
  stream.\<close>

function flush :: "param \<Rightarrow> bool \<Rightarrow> gen_state \<Rightarrow> (int \<times> bool) list \<times> (py_error + gen_state)" where
  "flush p is_tumor st =
     (if current_pos_index st = length (candidate_pos_list st) then ([], Inr st)
      else if current_pos_index st > length (candidate_pos_list st) then ([], Inl IndexError)
      else
        (let c = candidate_pos_list st ! current_pos_index st;
             (ys, r) = flush p is_tumor
                         (st\<lparr>pileup_dict := trim c (extend_bp_distance p) (pileup_dict st),
                            current_pos_index := current_pos_index st + 1\<rparr>)
         in ((c, is_tumor) # ys, r)))"
  by pat_completeness auto
termination
  by (relation "measure (\<lambda>(p, t, st). length (candidate_pos_list st) - current_pos_index st)") auto

declare flush.simps [simp del]

definition samtools_pileup_generator_from ::
  "gen_env \<Rightarrow> (int \<times> Position) list \<Rightarrow> (string \<times> int) list \<Rightarrow> pileup_row list \<Rightarrow> bool \<Rightarrow> bool
     \<Rightarrow> (int \<times> bool) list \<times> (py_error + gen_state)" where
  "samtools_pileup_generator_from env pileup_dict0 hap_dict0 rows is_tumor phasing_info_in_bam =
     (let st0 = \<lparr>pileup_dict = pileup_dict0, hap_dict = hap_dict0,
                  candidate_pos_list = sort (remdups (candidates_pos_set env)),
                  current_pos_index = 0\<rparr>;
          (ys, r) = gen_rows env is_tumor phasing_info_in_bam st0 rows
      in case r of
           Inl e \<Rightarrow> (ys, Inl e)
         | Inr st \<Rightarrow> (let (zs, r') = flush (prm env) is_tumor st in (ys @ zs, r')))"

text \<open>
  A row is decoded when neither the test on the regions nor the test on the reference
  base skips it.
\<close>

definition reaches_decode :: "gen_env \<Rightarrow> pileup_row \<Rightarrow> bool" where
  "reaches_decode env row =
     (\<not> (candidates_pos_set env = []
          \<and> \<not> (\<not> is_extend_bed_file_given env
                \<or> extend_bed_region_in env (row_pos row - 1) (row_pos row + 1))
          \<and> (case ctg_start env of None \<Rightarrow> True
              | Some s \<Rightarrow> s = 0 \<or> (row_pos row \<ge> s \<and> row_pos row \<le> ctg_end env)))
      \<and> (case py_get (reference_sequence env) (row_pos row - reference_start env) of
            Inl e \<Rightarrow> False | Inr c \<Rightarrow> upper c \<in> set ''ACGT''))"

section \<open>Example inputs\<close>

text \<open>
  A small profile (\<open>F = 1\<close>, three positions, no extension) and a call without
  regions, candidates or known variants over a short reference, used where a statement
  is evaluated on a concrete input.
\<close>

definition ex_prm :: param where
  "ex_prm = \<lparr>flankingBaseNum = 1, no_of_positions = 3, channel_size = 8, extend_bp = 0,
     min_af = 1 / 10, min_af_dict = (\<lambda>_. 1 / 10), normal_matrix_depth_dict = (\<lambda>_. 2),
     tumor_matrix_depth_dict = (\<lambda>_. 2), ont_input_shape = (2, 3, 8), input_shape = (2, 3, 8)\<rparr>"

definition ex_env :: gen_env where
  "ex_env = \<lparr>prm = ex_prm, candidates_pos_set = [], is_extend_bed_file_given = False,
     extend_bed_region_in = (\<lambda>a b. False), ctg_start = None, ctg_end = 0,
     reference_sequence = ''ACGTACGTACGTACGTACGT'', reference_start = 1,
     minimum_snv_af_for_candidate = 1 / 10, minimum_indel_af_for_candidate = 1 / 10,
     candidates_type_dict = Map.empty, platform = ''ont'', is_known_vcf_file_provided = False,
     known_variants_set = {}, min_coverage = 1\<rparr>"

definition ex_row :: "int \<Rightarrow> string \<Rightarrow> string \<Rightarrow> pileup_row" where
  "ex_row p bases names = \<lparr>row_pos = p, row_pileup_bases = bases, row_raw_base_quality = ''III'',
     row_raw_mapping_quality = ''III'', row_read_names = names, row_phasing_info = []\<rparr>"

definition ex_state :: "int list \<Rightarrow> gen_state" where
  "ex_state cands = \<lparr>pileup_dict = [], hap_dict = [], candidate_pos_list = cands,
     current_pos_index = 0\<rparr>"

section \<open>The counts of the allele-frequency gate, in the words of the specification\<close>

text \<open>
  The number of reads whose upper-cased base is \<open>b\<close>, the number of reads with an
  insertion and with a deletion, and the depth: the reads whose upper-cased base is one
  of \<open>A, C, G, T\<close> and the reads marked \<open>#\<close> or \<open>*\<close>.
\<close>

definition base_count :: "char \<Rightarrow> base_info list \<Rightarrow> nat" where
  "base_count b bl = length (filter (\<lambda>x. upper (fst x) = b) bl)"

definition ins_count :: "base_info list \<Rightarrow> nat" where
  "ins_count bl = length (filter (\<lambda>x. snd x \<noteq> [] \<and> hd (snd x) = CHR ''+'') bl)"

definition del_count :: "base_info list \<Rightarrow> nat" where
  "del_count bl = length (filter (\<lambda>x. snd x \<noteq> [] \<and> hd (snd x) = CHR ''-'') bl)"

definition read_depth :: "base_info list \<Rightarrow> nat" where
  "read_depth bl = length (filter (\<lambda>x. upper (fst x) \<in> set ''ACGT'' \<or> fst x \<in> set ''#*'') bl)"

text \<open>\<open>d.get(k, 0)\<close>, and the sum of the counts of the keys that satisfy \<open>P\<close>.\<close>

definition dict_get :: "('k \<times> nat) list \<Rightarrow> 'k \<Rightarrow> nat" where
  "dict_get d k = (case map_of d k of Some c \<Rightarrow> c | None \<Rightarrow> 0)"

definition total :: "('k \<Rightarrow> bool) \<Rightarrow> ('k \<times> nat) list \<Rightarrow> nat" where
  "total P kcs = sum_list (map (\<lambda>kc. if P (fst kc) then snd kc else 0) kcs)"

text \<open>
  The gate in the words of the specification: some base other than the reference base
  reaches the threshold for single-base variants, or the insertions or the deletions
  reach the threshold for indels, each count divided by the depth.
\<close>

definition passes_af_gate :: "char \<Rightarrow> rat \<Rightarrow> rat \<Rightarrow> base_info list \<Rightarrow> bool" where
  "passes_af_gate reference_base tau_snv tau_indel bl =
     ((\<exists>b\<in>set ''ACGT''. b \<noteq> reference_base
          \<and> of_nat (base_count b bl) / of_nat (read_depth bl) \<ge> tau_snv)
      \<or> of_nat (ins_count bl) / of_nat (read_depth bl) \<ge> tau_indel
      \<or> of_nat (del_count bl) / of_nat (read_depth bl) \<ge> tau_indel)"

section \<open>Het-SNP phasing selector (\<open>select_hetero_snp_for_phasing\<close>)\<close>
















section \<open>Read ordering (\<open>sorted_by_hap_read_name\<close>)\<close>

text \<open>
  The module \<open>random\<close> of the Python library: \<open>seed\<close> gives the state of the
  generator after \<open>random.seed\<close>, and \<open>sample g n k\<close> is
  \<open>random.sample(range(n), k)\<close> in state \<open>g\<close>, with the state it leaves. The
  generator itself is not modelled.
\<close>

record 'g random_module =
  seed :: "int \<Rightarrow> 'g"
  sample :: "'g \<Rightarrow> nat \<Rightarrow> nat \<Rightarrow> nat list \<times> 'g"

text \<open>What the library promises of \<open>random.sample\<close>: \<open>k\<close> different indices
  below \<open>n\<close>.\<close>

definition sample_contract :: "'g random_module \<Rightarrow> bool" where
  "sample_contract rnd =
     (\<forall>g n k. k \<le> n \<longrightarrow>
        length (fst (sample rnd g n k)) = k \<and> distinct (fst (sample rnd g n k))
        \<and> (\<forall>i\<in>set (fst (sample rnd g n k)). i < n))"

text \<open>\<open>list(OrderedDict.fromkeys(xs))\<close>: the first occurrences, in order.\<close>

definition fromkeys :: "'a list \<Rightarrow> 'a list" where
  "fromkeys xs = foldl (\<lambda>acc x. if x \<in> set acc then acc else acc @ [x]) [] xs"

text \<open>The read names of the positions of the window, from left to right.\<close>

definition nearby_read_names :: "param \<Rightarrow> int \<Rightarrow> (int \<times> Position) list \<Rightarrow> string list" where
  "nearby_read_names pr center_pos pileup =
     concat (map (\<lambda>p. case map_of pileup p of Some x \<Rightarrow> read_name_list x | None \<Rightarrow> [])
               [center_pos - flankingBaseNum pr .. center_pos + flankingBaseNum pr + 1 - 1])"

text \<open>\<open>d[k]\<close> on a \<open>defaultdict(int)\<close>: a missing key is entered with 0.\<close>

definition defaultdict_get :: "('k \<times> int) list \<Rightarrow> 'k \<Rightarrow> int \<times> ('k \<times> int) list" where
  "defaultdict_get d k = (case map_of d k of Some v \<Rightarrow> (v, d) | None \<Rightarrow> (0, d @ [(k, 0)]))"

text \<open>The loop that pairs each read name with its haplotype and its index.\<close>

fun annotate ::
  "(string \<times> int) list \<Rightarrow> (string \<times> int) list \<Rightarrow> nat \<Rightarrow> string list
     \<Rightarrow> (int \<times> nat \<times> string) list \<times> (string \<times> int) list \<times> (string \<times> int) list" where
  "annotate haplotag_dict haps order [] = ([], haplotag_dict, haps)"
| "annotate haplotag_dict haps order (read_name # names) =
     (let (a, haplotag_dict) = defaultdict_get haplotag_dict read_name;
          (b, haps) = defaultdict_get haps read_name;
          (rest, haplotag_dict, haps) = annotate haplotag_dict haps (order + 1) names
      in ((max a b, order, read_name) # rest, haplotag_dict, haps))"

text \<open>
  \<open>sorted_by_hap_read_name\<close>, with the state of the random generator passed in and
  out. The result is the sorted list, the two dictionaries as the lookups leave them,
  and the new state of the generator.
\<close>

definition sorted_by_hap_read_name ::
  "'g random_module \<Rightarrow> param \<Rightarrow> 'g \<Rightarrow> int \<Rightarrow> (string \<times> int) list \<Rightarrow> (int \<times> Position) list
     \<Rightarrow> (string \<times> int) list \<Rightarrow> nat \<Rightarrow> bool
     \<Rightarrow> (int \<times> nat \<times> string) list \<times> (string \<times> int) list \<times> (string \<times> int) list \<times> 'g" where
  "sorted_by_hap_read_name rnd pr g center_pos haplotag_dict pileup haps max_depth
       use_tensor_sample_mode =
     (let all_nearby_read_name = fromkeys (nearby_read_names pr center_pos pileup);
          matrix_depth = max_depth;
          (all_nearby_read_name, g) =
             (if length all_nearby_read_name > matrix_depth \<and> \<not> use_tensor_sample_mode then
                (let (indices, g') = sample rnd (seed rnd 0) (length all_nearby_read_name) matrix_depth
                 in (map (\<lambda>i. all_nearby_read_name ! i) (sort indices), g'))
              else (all_nearby_read_name, g));
          (sorted_read_name_list, haplotag_dict, haps) =
             annotate haplotag_dict haps 0 all_nearby_read_name
      in (sort_key (\<lambda>x. (fst x, fst (snd x))) sorted_read_name_list, haplotag_dict, haps, g))"

text \<open>
  A stand-in for the random module that keeps the promise of \<open>random.sample\<close> (it
  picks the last \<open>k\<close> indices, in decreasing order), and a window of three positions
  around 11 that four reads cover.
\<close>

definition ex_random :: "int random_module" where
  "ex_random = \<lparr>seed = (\<lambda>s. s), sample = (\<lambda>g n k. (rev [n - k ..< n], g + 1))\<rparr>"

definition ex_position :: "int \<Rightarrow> char \<Rightarrow> string list \<Rightarrow> base_info list \<Rightarrow> int \<times> Position" where
  "ex_position p r names bl =
     (p, \<lparr>pos = p, ref_base = r, read_name_list = names, base_list = bl,
          raw_base_quality = replicate (length names) CHR ''I'',
          raw_mapping_quality = replicate (length names) CHR ''I'',
          af = 0, depth = Some (length names), update_info = False, read_info = []\<rparr>)"

definition ex_pileup :: "(int \<times> Position) list" where
  "ex_pileup =
     [ex_position 10 CHR ''C'' [''r1'', ''r2''] [(CHR ''C'', []), (CHR ''C'', [])],
      ex_position 11 CHR ''G'' [''r2'', ''r3''] [(CHR ''G'', []), (CHR ''G'', [])],
      ex_position 12 CHR ''T'' [''r3'', ''r4''] [(CHR ''T'', []), (CHR ''T'', [])]]"

definition emitted :: "bool \<Rightarrow> int set \<Rightarrow> (int \<times> bool) list \<Rightarrow> int list" where
  "emitted skip s es = fst (merge_loop skip s es)"

section \<open>Properties of the paired merge\<close>

lemma emitted_Nil [simp]: "emitted skip s [] = []"
  by (simp add: emitted_def)

lemma emitted_normal [simp]: "emitted skip s ((p, False) # es) = emitted skip (insert p s) es"
  by (simp add: emitted_def)

lemma emitted_tumor [simp]:
  "emitted skip s ((p, True) # es) =
     (if p \<in> s \<or> \<not> skip then p # emitted skip (s - {p}) es else emitted skip s es)"
  by (simp add: emitted_def split: prod.splits)












section \<open>Properties of the pileup decoder and the generator\<close>

lemma read_advance_digits:
  "\<forall>d\<in>set ds. isdigit d \<Longrightarrow> read_advance ds a = Inl IndexError"
  by (induction ds arbitrary: a) auto

lemma decode_loop_unterminated:
  "sign = CHR ''+'' \<or> sign = CHR ''-'' \<Longrightarrow> \<forall>d\<in>set ds. isdigit d \<Longrightarrow>
     decode_loop (sign # ds) bl = Inl IndexError"
  by (auto simp: read_advance_digits)

lemma decode_loop_prefix:
  "\<forall>c\<in>set pre. c \<notin> {CHR ''+'', CHR ''-'', CHR ''^''} \<Longrightarrow>
   sign = CHR ''+'' \<or> sign = CHR ''-'' \<Longrightarrow> \<forall>d\<in>set ds. isdigit d \<Longrightarrow>
     decode_loop (pre @ sign # ds) bl = Inl IndexError"
proof (induction pre arbitrary: bl)
  case Nil
  then show ?case using decode_loop_unterminated by simp
next
  case (Cons c pre)
  then have "decode_loop (pre @ sign # ds) b = Inl IndexError" for b by simp
  moreover have "c \<noteq> CHR ''+''" "c \<noteq> CHR ''-''" "c \<noteq> CHR ''^''" using Cons.prems(1) by auto
  ultimately show ?case by simp
qed

lemma ilmn_names_ok:
  "length bl \<le> length names \<Longrightarrow> \<exists>r. ilmn_names bl names = Inr r \<and> length r = length names"
  by (induction bl names rule: ilmn_names.induct) (auto simp: bind_err_def)

lemma decode_pileup_bases_loop:
  "decode_loop bs [] = Inr bl \<Longrightarrow>
     \<exists>dp pa a. decode_pileup_bases p q bs r s i h c t pl = Inr (bl, dp, pa, a)"
  by (cases "af_gate p r s i pl bl") (auto simp: decode_pileup_bases_def)

lemma decode_pileup_bases_error:
  "decode_loop bs [] = Inl e \<Longrightarrow> decode_pileup_bases p q bs r s i h c t pl = Inl e"
  by (simp add: decode_pileup_bases_def)

lemma row_step_mismatch:
  assumes r: "reaches_decode env row"
    and d: "decode_loop (row_pileup_bases row) [] = Inr bl"
    and l: "length (split_on CHR '','' (row_read_names row)) \<noteq> length bl"
    and i: "platform env \<noteq> ''ilmn'' \<or> length bl < length (split_on CHR '','' (row_read_names row))"
  shows "row_step env t False st row = Inr (st, None)"
proof -
  obtain c where c: "py_get (reference_sequence env) (row_pos row - reference_start env) = Inr c"
      "upper c \<in> set ''ACGT''"
    using r by (auto simp: reaches_decode_def split: sum.splits)
  obtain dp pa a where dec: "decode_pileup_bases (prm env) (row_pos row) (row_pileup_bases row) (upper c)
       (minimum_snv_af_for_candidate env) (minimum_indel_af_for_candidate env)
       (candidates_pos_set env \<noteq> []) (candidates_type_dict env) t ''ont'' = Inr (bl, dp, pa, a)"
    using decode_pileup_bases_loop [OF d] by blast
  obtain names where n: "(if platform env = ''ilmn''
        then ilmn_names bl (split_on CHR '','' (row_read_names row))
        else Inr (split_on CHR '','' (row_read_names row))) = Inr names"
      "length names = length (split_on CHR '','' (row_read_names row))"
    using i ilmn_names_ok [of bl "split_on CHR '','' (row_read_names row)"]
    by (cases "platform env = ''ilmn''") auto
  have "after_names env t False st row (upper c) bl dp pa a names = Inr (st, None)"
    using l n(2) by (simp add: after_names_def Let_def bind_err_def)
  then show ?thesis
    using r c dec n(1)
    by (simp add: row_step_def reaches_decode_def Let_def bind_err_def)
qed

lemma row_step_decode_error:
  assumes r: "reaches_decode env row"
    and d: "decode_loop (row_pileup_bases row) [] = Inl e"
  shows "row_step env t ph st row = Inl e"
proof -
  obtain c where c: "py_get (reference_sequence env) (row_pos row - reference_start env) = Inr c"
      "upper c \<in> set ''ACGT''"
    using r by (auto simp: reaches_decode_def split: sum.splits)
  show ?thesis
    using r c decode_pileup_bases_error [OF d]
    by (simp add: row_step_def reaches_decode_def Let_def bind_err_def)
qed

lemma ilmn_names_length:
  "ilmn_names bl names0 = Inr names \<Longrightarrow> length names = length names0"
  by (induction bl names0 arbitrary: names rule: ilmn_names.induct)
     (auto simp: bind_err_def split: sum.splits)

lemma row_step_to_after_names:
  assumes r: "reaches_decode env row"
    and d: "decode_loop (row_pileup_bases row) [] = Inr bl"
    and n: "(if platform env = ''ilmn''
             then ilmn_names bl (split_on CHR '','' (row_read_names row))
             else Inr (split_on CHR '','' (row_read_names row))) = Inr names"
  shows "\<exists>c dp pa a.
           py_get (reference_sequence env) (row_pos row - reference_start env) = Inr c
           \<and> upper c \<in> set ''ACGT''
           \<and> decode_pileup_bases (prm env) (row_pos row) (row_pileup_bases row) (upper c)
                (minimum_snv_af_for_candidate env) (minimum_indel_af_for_candidate env)
                (candidates_pos_set env \<noteq> []) (candidates_type_dict env) t ''ont''
               = Inr (bl, dp, pa, a)
           \<and> row_step env t ph st row = after_names env t ph st row (upper c) bl dp pa a names"
proof -
  obtain c where c: "py_get (reference_sequence env) (row_pos row - reference_start env) = Inr c"
      "upper c \<in> set ''ACGT''"
    using r by (auto simp: reaches_decode_def split: sum.splits)
  obtain dp pa a where dec: "decode_pileup_bases (prm env) (row_pos row) (row_pileup_bases row) (upper c)
       (minimum_snv_af_for_candidate env) (minimum_indel_af_for_candidate env)
       (candidates_pos_set env \<noteq> []) (candidates_type_dict env) t ''ont'' = Inr (bl, dp, pa, a)"
    using decode_pileup_bases_loop [OF d] by blast
  have k: "\<not> (\<not> candidates_pos_set env \<noteq> []
          \<and> \<not> (\<not> is_extend_bed_file_given env
                \<or> extend_bed_region_in env (row_pos row - 1) (row_pos row + 1))
          \<and> (case ctg_start env of None \<Rightarrow> True
              | Some s \<Rightarrow> s = 0 \<or> (row_pos row \<ge> s \<and> row_pos row \<le> ctg_end env)))"
    using r by (auto simp: reaches_decode_def)
  have "row_step env t ph st row = after_names env t ph st row (upper c) bl dp pa a names"
    unfolding row_step_def Let_def
    by (simp only: k if_False c dec n bind_err_def sum.case prod.case, simp)
  with c dec show ?thesis by blast
qed

lemma row_step_mismatch_phasing:
  assumes r: "reaches_decode env row"
    and d: "decode_loop (row_pileup_bases row) [] = Inr bl"
    and n: "(if platform env = ''ilmn''
             then ilmn_names bl (split_on CHR '','' (row_read_names row))
             else Inr (split_on CHR '','' (row_read_names row))) = Inr names"
    and l: "length (split_on CHR '','' (row_read_names row)) \<noteq> length bl"
    and h: "(if ph \<and> length names = length (split_on CHR '','' (row_phasing_info row))
             then hap_loop (hap_dict st) (zip names (split_on CHR '','' (row_phasing_info row)))
             else Inr (hap_dict st)) = Inr hp"
  shows "row_step env t ph st row = Inr (st\<lparr>hap_dict := hp\<rparr>, None)"
proof -
  have ln: "length names = length (split_on CHR '','' (row_read_names row))"
    using n ilmn_names_length [of bl "split_on CHR '','' (row_read_names row)" names]
    by (auto split: if_splits)
  obtain c dp pa a where
    s: "row_step env t ph st row = after_names env t ph st row (upper c) bl dp pa a names"
    using row_step_to_after_names [OF r d n, of t ph st] by blast
  have "after_names env t ph st row (upper c) bl dp pa a names = Inr (st\<lparr>hap_dict := hp\<rparr>, None)"
    using l ln h by (auto simp: after_names_def Let_def bind_err_def split: if_splits)
  with s show ?thesis by simp
qed

lemma row_step_hap_error:
  assumes r: "reaches_decode env row"
    and d: "decode_loop (row_pileup_bases row) [] = Inr bl"
    and n: "(if platform env = ''ilmn''
             then ilmn_names bl (split_on CHR '','' (row_read_names row))
             else Inr (split_on CHR '','' (row_read_names row))) = Inr names"
    and q: "length names = length (split_on CHR '','' (row_phasing_info row))"
    and h: "hap_loop (hap_dict st) (zip names (split_on CHR '','' (row_phasing_info row))) = Inl e"
  shows "row_step env t True st row = Inl e"
proof -
  obtain c dp pa a where
    s: "row_step env t True st row = after_names env t True st row (upper c) bl dp pa a names"
    using row_step_to_after_names [OF r d n, of t True st] by blast
  have "after_names env t True st row (upper c) bl dp pa a names = Inl e"
    using q h by (simp add: after_names_def Let_def bind_err_def)
  with s show ?thesis by simp
qed

text \<open>
  Claim C9, as the code has it. A decoded row whose base list and name list differ in
  length is skipped: nothing is stored and nothing is counted, and the loop goes on
  with the next row. On the platform \<open>ilmn\<close> this needs the name list to be the
  longer one (the names are indexed by the bases first). With a phasing column the
  haplotype dictionary is written before the skip, and an exception of that loop (an
  empty haplotype field) ends the generator. When the decoder arrives at a \<open>+\<close> or
  \<open>-\<close> that only digits follow up to the end of the string, it raises
  \<open>IndexError\<close>; an exception of the decoder is not caught and ends the generator,
  so that the rows after it are not read.
\<close>

theorem malformed_pileup_row:
  "(reaches_decode env row \<and> decode_loop (row_pileup_bases row) [] = Inr bl
      \<and> length (split_on CHR '','' (row_read_names row)) \<noteq> length bl
      \<and> (platform env \<noteq> ''ilmn'' \<or> length bl < length (split_on CHR '','' (row_read_names row)))
     \<longrightarrow> row_step env t False st row = Inr (st, None)
        \<and> gen_rows env t False st (row # rows) = gen_rows env t False st rows)
   \<and> (reaches_decode env row \<and> decode_loop (row_pileup_bases row) [] = Inr bl
      \<and> (if platform env = ''ilmn''
          then ilmn_names bl (split_on CHR '','' (row_read_names row))
          else Inr (split_on CHR '','' (row_read_names row))) = Inr names
      \<and> length (split_on CHR '','' (row_read_names row)) \<noteq> length bl
      \<and> (if ph \<and> length names = length (split_on CHR '','' (row_phasing_info row))
          then hap_loop (hap_dict st) (zip names (split_on CHR '','' (row_phasing_info row)))
          else Inr (hap_dict st)) = Inr hp
     \<longrightarrow> row_step env t ph st row = Inr (st\<lparr>hap_dict := hp\<rparr>, None)
        \<and> gen_rows env t ph st (row # rows) = gen_rows env t ph (st\<lparr>hap_dict := hp\<rparr>) rows)
   \<and> (reaches_decode env row \<and> decode_loop (row_pileup_bases row) [] = Inr bl
      \<and> (if platform env = ''ilmn''
          then ilmn_names bl (split_on CHR '','' (row_read_names row))
          else Inr (split_on CHR '','' (row_read_names row))) = Inr names
      \<and> length names = length (split_on CHR '','' (row_phasing_info row))
      \<and> hap_loop (hap_dict st) (zip names (split_on CHR '','' (row_phasing_info row))) = Inl e
     \<longrightarrow> row_step env t True st row = Inl e
        \<and> gen_rows env t True st (row # rows) = ([], Inl e))
   \<and> (reaches_decode env row \<and> row_pileup_bases row = pre @ sign # ds
      \<and> (\<forall>c\<in>set pre. c \<notin> {CHR ''+'', CHR ''-'', CHR ''^''})
      \<and> (sign = CHR ''+'' \<or> sign = CHR ''-'') \<and> (\<forall>d\<in>set ds. isdigit d)
     \<longrightarrow> row_step env t ph st row = Inl IndexError
        \<and> gen_rows env t ph st (row # rows) = ([], Inl IndexError))
   \<and> ((sign = CHR ''+'' \<or> sign = CHR ''-'') \<and> (\<forall>d\<in>set ds. isdigit d)
     \<longrightarrow> decode_loop (sign # ds) bl2 = Inl IndexError)
   \<and> (reaches_decode env row \<and> decode_loop (row_pileup_bases row) [] = Inl e
     \<longrightarrow> row_step env t ph st row = Inl e
        \<and> gen_rows env t ph st (row # rows) = ([], Inl e))"
proof (intro conjI impI)
  assume a: "reaches_decode env row \<and> decode_loop (row_pileup_bases row) [] = Inr bl
      \<and> length (split_on CHR '','' (row_read_names row)) \<noteq> length bl
      \<and> (platform env \<noteq> ''ilmn'' \<or> length bl < length (split_on CHR '','' (row_read_names row)))"
  then show s: "row_step env t False st row = Inr (st, None)"
    using row_step_mismatch [of env row bl t st] by blast
  show "gen_rows env t False st (row # rows) = gen_rows env t False st rows"
    by (simp add: s split: prod.splits)
next
  assume a: "reaches_decode env row \<and> decode_loop (row_pileup_bases row) [] = Inr bl
      \<and> (if platform env = ''ilmn''
          then ilmn_names bl (split_on CHR '','' (row_read_names row))
          else Inr (split_on CHR '','' (row_read_names row))) = Inr names
      \<and> length (split_on CHR '','' (row_read_names row)) \<noteq> length bl
      \<and> (if ph \<and> length names = length (split_on CHR '','' (row_phasing_info row))
          then hap_loop (hap_dict st) (zip names (split_on CHR '','' (row_phasing_info row)))
          else Inr (hap_dict st)) = Inr hp"
  then show s: "row_step env t ph st row = Inr (st\<lparr>hap_dict := hp\<rparr>, None)"
    using row_step_mismatch_phasing [of env row bl names ph st hp t] by blast
  show "gen_rows env t ph st (row # rows) = gen_rows env t ph (st\<lparr>hap_dict := hp\<rparr>) rows"
    by (simp add: s split: prod.splits)
next
  assume a: "reaches_decode env row \<and> decode_loop (row_pileup_bases row) [] = Inr bl
      \<and> (if platform env = ''ilmn''
          then ilmn_names bl (split_on CHR '','' (row_read_names row))
          else Inr (split_on CHR '','' (row_read_names row))) = Inr names
      \<and> length names = length (split_on CHR '','' (row_phasing_info row))
      \<and> hap_loop (hap_dict st) (zip names (split_on CHR '','' (row_phasing_info row))) = Inl e"
  then show s: "row_step env t True st row = Inl e"
    using row_step_hap_error [of env row bl names st e t] by blast
  show "gen_rows env t True st (row # rows) = ([], Inl e)"
    by (simp add: s)
next
  assume a: "reaches_decode env row \<and> row_pileup_bases row = pre @ sign # ds
      \<and> (\<forall>c\<in>set pre. c \<notin> {CHR ''+'', CHR ''-'', CHR ''^''})
      \<and> (sign = CHR ''+'' \<or> sign = CHR ''-'') \<and> (\<forall>d\<in>set ds. isdigit d)"
  then have "decode_loop (row_pileup_bases row) [] = Inl IndexError"
    using decode_loop_prefix [of pre sign ds "[]"] by simp
  with a show s: "row_step env t ph st row = Inl IndexError"
    using row_step_decode_error [of env row IndexError t ph st] by blast
  show "gen_rows env t ph st (row # rows) = ([], Inl IndexError)"
    by (simp add: s)
next
  assume "(sign = CHR ''+'' \<or> sign = CHR ''-'') \<and> (\<forall>d\<in>set ds. isdigit d)"
  then show "decode_loop (sign # ds) bl2 = Inl IndexError"
    using decode_loop_unterminated [of sign ds bl2] by blast
next
  assume a: "reaches_decode env row \<and> decode_loop (row_pileup_bases row) [] = Inl e"
  then show s: "row_step env t ph st row = Inl e"
    using row_step_decode_error [of env row e t ph st] by blast
  show "gen_rows env t ph st (row # rows) = ([], Inl e)"
    by (simp add: s)
qed

theorem malformed_pileup_row_witness:
  "reaches_decode ex_env (ex_row 11 ''AA'' ''r1'')
   \<and> decode_loop ''AA'' [] = Inr [(CHR ''A'', []), (CHR ''A'', [])]
   \<and> split_on CHR '','' ''r1'' = [''r1'']
   \<and> row_step ex_env True False (ex_state []) (ex_row 11 ''AA'' ''r1'') = Inr (ex_state [], None)
   \<and> gen_rows ex_env True False (ex_state []) [ex_row 11 ''AA'' ''r1'', ex_row 12 ''AAT'' ''r1,r2,r3'']
       = gen_rows ex_env True False (ex_state []) [ex_row 12 ''AAT'' ''r1,r2,r3'']
   \<and> hap_loop [] (zip [''r1''] [''1'']) = Inr [(''r1'', 1)]
   \<and> row_step ex_env True True (ex_state []) ((ex_row 11 ''AA'' ''r1'')\<lparr>row_phasing_info := ''1''\<rparr>)
       = Inr ((ex_state [])\<lparr>hap_dict := [(''r1'', 1)]\<rparr>, None)
   \<and> hap_loop [] (zip [''r1'', ''r2''] [[], []]) = Inl ValueError
   \<and> row_step ex_env True True (ex_state []) ((ex_row 11 ''AA'' ''r1,r2'')\<lparr>row_phasing_info := '',''\<rparr>)
       = Inl ValueError
   \<and> row_step ex_env True False (ex_state []) (ex_row 11 ''A+1'' ''r1'') = Inl IndexError
   \<and> gen_rows ex_env True False (ex_state []) [ex_row 11 ''A+1'' ''r1'', ex_row 12 ''AAT'' ''r1,r2,r3'']
       = ([], Inl IndexError)
   \<and> decode_loop ''-2'' [(CHR ''C'', [])] = Inl IndexError
   \<and> decode_loop ''A+1C^F,-2'' [] = Inl IndexError
   \<and> row_step ex_env True False (ex_state []) (ex_row 11 ''A+1C^F,-2'' ''r1,r2'') = Inl IndexError"
proof -
  have r1: "reaches_decode ex_env (ex_row 11 ''AA'' ''r1'')" by code_simp
  have d1: "decode_loop (row_pileup_bases (ex_row 11 ''AA'' ''r1'')) [] = Inr [(CHR ''A'', []), (CHR ''A'', [])]"
    by code_simp
  have n1: "split_on CHR '','' (row_read_names (ex_row 11 ''AA'' ''r1'')) = [''r1'']" by code_simp
  have p1: "platform ex_env \<noteq> ''ilmn''" by code_simp
  have r2: "reaches_decode ex_env (ex_row 11 ''A+1'' ''r1'')" by code_simp
  have b2: "row_pileup_bases (ex_row 11 ''A+1'' ''r1'') = ''A'' @ CHR ''+'' # ''1''" by code_simp
  have g2: "\<forall>d\<in>set ''1''. isdigit d" by (simp add: isdigit_def)
  have a: "row_step ex_env True False (ex_state []) (ex_row 11 ''AA'' ''r1'') = Inr (ex_state [], None)
     \<and> gen_rows ex_env True False (ex_state []) (ex_row 11 ''AA'' ''r1'' # [ex_row 12 ''AAT'' ''r1,r2,r3''])
       = gen_rows ex_env True False (ex_state []) [ex_row 12 ''AAT'' ''r1,r2,r3'']"
    using malformed_pileup_row [where env = ex_env and row = "ex_row 11 ''AA'' ''r1''"
        and bl = "[(CHR ''A'', []), (CHR ''A'', [])]" and t = True and st = "ex_state []"
        and rows = "[ex_row 12 ''AAT'' ''r1,r2,r3'']"] r1 d1 n1 p1
    by simp
  have b: "row_step ex_env True False (ex_state []) (ex_row 11 ''A+1'' ''r1'') = Inl IndexError
     \<and> gen_rows ex_env True False (ex_state []) (ex_row 11 ''A+1'' ''r1'' # [ex_row 12 ''AAT'' ''r1,r2,r3''])
       = ([], Inl IndexError)"
    using malformed_pileup_row [where env = ex_env and row = "ex_row 11 ''A+1'' ''r1''"
        and pre = "''A''" and sign = "CHR ''+''" and ds = "''1''" and t = True and ph = False
        and st = "ex_state []" and rows = "[ex_row 12 ''AAT'' ''r1,r2,r3'']"] r2 b2 g2
    by simp
  have r3: "reaches_decode ex_env ((ex_row 11 ''AA'' ''r1'')\<lparr>row_phasing_info := ''1''\<rparr>)" by code_simp
  have d3: "decode_loop (row_pileup_bases ((ex_row 11 ''AA'' ''r1'')\<lparr>row_phasing_info := ''1''\<rparr>)) []
      = Inr [(CHR ''A'', []), (CHR ''A'', [])]"
    by code_simp
  have n3: "split_on CHR '','' (row_read_names ((ex_row 11 ''AA'' ''r1'')\<lparr>row_phasing_info := ''1''\<rparr>))
      = [''r1'']"
      "split_on CHR '','' (row_phasing_info ((ex_row 11 ''AA'' ''r1'')\<lparr>row_phasing_info := ''1''\<rparr>))
      = [''1'']"
    by code_simp+
  have h3: "hap_loop [] (zip [''r1''] [''1'']) = Inr [(''r1'', 1)]" by code_simp
  have s3: "hap_dict (ex_state []) = []" by (simp add: ex_state_def)
  have c: "row_step ex_env True True (ex_state []) ((ex_row 11 ''AA'' ''r1'')\<lparr>row_phasing_info := ''1''\<rparr>)
       = Inr ((ex_state [])\<lparr>hap_dict := [(''r1'', 1)]\<rparr>, None)"
    using malformed_pileup_row [where env = ex_env
        and row = "(ex_row 11 ''AA'' ''r1'')\<lparr>row_phasing_info := ''1''\<rparr>"
        and bl = "[(CHR ''A'', []), (CHR ''A'', [])]" and names = "[''r1'']" and ph = True
        and hp = "[(''r1'', 1)]" and t = True and st = "ex_state []" and rows = "[]"]
      r3 d3 n3 p1 h3 s3
    by simp
  have r4: "reaches_decode ex_env ((ex_row 11 ''AA'' ''r1,r2'')\<lparr>row_phasing_info := '',''\<rparr>)" by code_simp
  have d4: "decode_loop (row_pileup_bases ((ex_row 11 ''AA'' ''r1,r2'')\<lparr>row_phasing_info := '',''\<rparr>)) []
      = Inr [(CHR ''A'', []), (CHR ''A'', [])]"
    by code_simp
  have n4: "split_on CHR '','' (row_read_names ((ex_row 11 ''AA'' ''r1,r2'')\<lparr>row_phasing_info := '',''\<rparr>))
      = [''r1'', ''r2'']"
      "split_on CHR '','' (row_phasing_info ((ex_row 11 ''AA'' ''r1,r2'')\<lparr>row_phasing_info := '',''\<rparr>))
      = [[], []]"
    by code_simp+
  have h4: "hap_loop [] (zip [''r1'', ''r2''] [[], []]) = Inl ValueError" by code_simp
  have e: "row_step ex_env True True (ex_state []) ((ex_row 11 ''AA'' ''r1,r2'')\<lparr>row_phasing_info := '',''\<rparr>)
       = Inl ValueError"
    using malformed_pileup_row [where env = ex_env
        and row = "(ex_row 11 ''AA'' ''r1,r2'')\<lparr>row_phasing_info := '',''\<rparr>"
        and bl = "[(CHR ''A'', []), (CHR ''A'', [])]" and names = "[''r1'', ''r2'']"
        and e = ValueError and t = True and st = "ex_state []" and rows = "[]"]
      r4 d4 n4 p1 h4 s3
    by simp
  have f: "decode_loop ''-2'' [(CHR ''C'', [])] = Inl IndexError"
    using malformed_pileup_row [where sign = "CHR ''-''" and ds = "''2''" and ?bl2.0 = "[(CHR ''C'', [])]"]
      by (simp add: isdigit_def)
  have r5: "reaches_decode ex_env (ex_row 11 ''A+1C^F,-2'' ''r1,r2'')" by code_simp
  have d5: "decode_loop (row_pileup_bases (ex_row 11 ''A+1C^F,-2'' ''r1,r2'')) [] = Inl IndexError"
    by code_simp
  have g: "row_step ex_env True False (ex_state []) (ex_row 11 ''A+1C^F,-2'' ''r1,r2'') = Inl IndexError"
    using malformed_pileup_row [where env = ex_env and row = "ex_row 11 ''A+1C^F,-2'' ''r1,r2''"
        and e = IndexError and t = True and ph = False and st = "ex_state []" and rows = "[]"] r5 d5
    by simp
  have d1': "decode_loop ''AA'' [] = Inr [(CHR ''A'', []), (CHR ''A'', [])]" by code_simp
  have n1': "split_on CHR '','' ''r1'' = [''r1'']" by code_simp
  have d5': "decode_loop ''A+1C^F,-2'' [] = Inl IndexError" by code_simp
  show ?thesis using r1 d1' n1' a b h3 c h4 e f d5' g by simp
qed

text \<open>
  The claim as the specification states it fails: the row \<open>A+1\<close> is not skipped as a
  malformed row. With it in front, the generator ends with \<open>IndexError\<close> and never
  yields the candidate of the next row, which it yields when that row stands alone.
\<close>

theorem malformed_pileup_row_counterexample:
  "fst (samtools_pileup_generator_from ex_env [] []
          [ex_row 12 ''AAT'' ''r1,r2,r3''] True False) = [(12, True)]
   \<and> samtools_pileup_generator_from ex_env [] []
          [ex_row 11 ''A+1'' ''r1'', ex_row 12 ''AAT'' ''r1,r2,r3''] True False
       = ([], Inl IndexError)"
  by code_simp













lemma map_of_dict_add:
  "map_of (dict_add d k n) k' = (if k' = k then Some (dict_get d k + n) else map_of d k')"
  by (induction d k n rule: dict_add.induct) (auto simp: dict_get_def)

lemma dict_get_dict_add:
  "dict_get (dict_add d k n) k' = (if k' = k then dict_get d k + n else dict_get d k')"
  by (simp add: dict_get_def map_of_dict_add)

lemma keys_dict_add: "fst ` set (dict_add d k n) = insert k (fst ` set d)"
  by (induction d k n rule: dict_add.induct) auto

lemma distinct_dict_add:
  "distinct (map fst d) \<Longrightarrow> distinct (map fst (dict_add d k n))"
  by (induction d k n rule: dict_add.induct) (auto simp: keys_dict_add)

lemma total_dict_add: "total P (dict_add d k n) = total P d + (if P k then n else 0)"
  by (induction d k n rule: dict_add.induct) (auto simp: total_def)

lemma total_foldl_dict_add:
  "total P (foldl (\<lambda>d x. dict_add d x 1) d xs) = total P d + length (filter P xs)"
  by (induction xs arbitrary: d) (auto simp: total_dict_add)

lemma total_Counter: "total P (Counter xs) = length (filter P xs)"
  unfolding Counter_def by (subst total_foldl_dict_add) (simp add: total_def)

lemma total_Cons: "total P (kc # kcs) = (if P (fst kc) then snd kc else 0) + total P kcs"
  by (simp add: total_def)

lemma not_ID: "b \<in> set ''ACGT'' \<Longrightarrow> b \<noteq> CHR ''I'' \<and> b \<noteq> CHR ''D''"
  by auto

lemma count_step_depth:
  "snd (count_step (pd, dep) kc) =
     dep + (if upper (fst (fst kc)) \<in> set ''ACGT'' \<or> fst (fst kc) \<in> set ''#*'' then snd kc else 0)"
  by (cases kc) (auto simp: count_step_def Let_def split: prod.splits)

lemma count_step_base:
  "b \<in> set ''ACGT'' \<Longrightarrow>
   dict_get (fst (count_step (pd, dep) kc)) b =
     dict_get pd b + (if upper (fst (fst kc)) = b then snd kc else 0)"
  using not_ID [of b]
  by (cases kc) (auto simp: count_step_def Let_def dict_get_dict_add split: prod.splits)

lemma count_step_ins:
  "dict_get (fst (count_step (pd, dep) kc)) CHR ''I'' =
     dict_get pd CHR ''I'' + (if snd (fst kc) \<noteq> [] \<and> hd (snd (fst kc)) = CHR ''+'' then snd kc else 0)"
  by (cases kc) (auto simp: count_step_def Let_def dict_get_dict_add split: prod.splits)

lemma count_step_del:
  "dict_get (fst (count_step (pd, dep) kc)) CHR ''D'' =
     dict_get pd CHR ''D'' + (if snd (fst kc) \<noteq> [] \<and> hd (snd (fst kc)) = CHR ''-'' then snd kc else 0)"
  by (cases kc) (auto simp: count_step_def Let_def dict_get_dict_add split: prod.splits)

lemma count_step_keys:
  "fst ` set (fst (count_step (pd, dep) kc)) \<subseteq> fst ` set pd \<union> set ''ACGTID''"
  by (cases kc) (auto simp: count_step_def Let_def keys_dict_add split: prod.splits)

lemma count_step_distinct:
  "distinct (map fst pd) \<Longrightarrow> distinct (map fst (fst (count_step (pd, dep) kc)))"
  by (cases kc) (auto simp: count_step_def Let_def distinct_dict_add split: prod.splits)

lemma foldl_count_step:
  "snd (foldl count_step (pd, dep) kcs) =
      dep + total (\<lambda>k. upper (fst k) \<in> set ''ACGT'' \<or> fst k \<in> set ''#*'') kcs
   \<and> (\<forall>b\<in>set ''ACGT''. dict_get (fst (foldl count_step (pd, dep) kcs)) b =
        dict_get pd b + total (\<lambda>k. upper (fst k) = b) kcs)
   \<and> dict_get (fst (foldl count_step (pd, dep) kcs)) CHR ''I'' =
        dict_get pd CHR ''I'' + total (\<lambda>k. snd k \<noteq> [] \<and> hd (snd k) = CHR ''+'') kcs
   \<and> dict_get (fst (foldl count_step (pd, dep) kcs)) CHR ''D'' =
        dict_get pd CHR ''D'' + total (\<lambda>k. snd k \<noteq> [] \<and> hd (snd k) = CHR ''-'') kcs
   \<and> fst ` set (fst (foldl count_step (pd, dep) kcs)) \<subseteq> fst ` set pd \<union> set ''ACGTID''
   \<and> (distinct (map fst pd) \<longrightarrow> distinct (map fst (fst (foldl count_step (pd, dep) kcs))))"
proof (induction kcs arbitrary: pd dep)
  case Nil
  then show ?case by (auto simp: total_def)
next
  case (Cons kc kcs)
  obtain pd1 dep1 where s: "count_step (pd, dep) kc = (pd1, dep1)" by (cases "count_step (pd, dep) kc")
  have d: "dep1 = dep + (if upper (fst (fst kc)) \<in> set ''ACGT'' \<or> fst (fst kc) \<in> set ''#*'' then snd kc else 0)"
    using count_step_depth [of pd dep kc] s by simp
  have b: "\<forall>b\<in>set ''ACGT''. dict_get pd1 b = dict_get pd b + (if upper (fst (fst kc)) = b then snd kc else 0)"
    using count_step_base [of _ pd dep kc] s by simp
  have i: "dict_get pd1 CHR ''I'' =
     dict_get pd CHR ''I'' + (if snd (fst kc) \<noteq> [] \<and> hd (snd (fst kc)) = CHR ''+'' then snd kc else 0)"
    using count_step_ins [of pd dep kc] s by simp
  have e: "dict_get pd1 CHR ''D'' =
     dict_get pd CHR ''D'' + (if snd (fst kc) \<noteq> [] \<and> hd (snd (fst kc)) = CHR ''-'' then snd kc else 0)"
    using count_step_del [of pd dep kc] s by simp
  have k: "fst ` set pd1 \<subseteq> fst ` set pd \<union> set ''ACGTID''"
    using count_step_keys [of pd dep kc] s by simp
  have t: "distinct (map fst pd) \<longrightarrow> distinct (map fst pd1)"
    using count_step_distinct [of pd dep kc] s by simp
  note ih = Cons.IH [of pd1 dep1]
  have f: "foldl count_step (pd, dep) (kc # kcs) = foldl count_step (pd1, dep1) kcs"
    by (simp add: s)
  show ?case
    unfolding f
  proof (intro conjI)
    show "snd (foldl count_step (pd1, dep1) kcs) =
      dep + total (\<lambda>k. upper (fst k) \<in> set ''ACGT'' \<or> fst k \<in> set ''#*'') (kc # kcs)"
      using ih d by (simp add: total_Cons)
    show "\<forall>b\<in>set ''ACGT''. dict_get (fst (foldl count_step (pd1, dep1) kcs)) b =
        dict_get pd b + total (\<lambda>k. upper (fst k) = b) (kc # kcs)"
      using ih b by (simp add: total_Cons)
    show "dict_get (fst (foldl count_step (pd1, dep1) kcs)) CHR ''I'' =
        dict_get pd CHR ''I'' + total (\<lambda>k. snd k \<noteq> [] \<and> hd (snd k) = CHR ''+'') (kc # kcs)"
      using ih i by (simp add: total_Cons)
    show "dict_get (fst (foldl count_step (pd1, dep1) kcs)) CHR ''D'' =
        dict_get pd CHR ''D'' + total (\<lambda>k. snd k \<noteq> [] \<and> hd (snd k) = CHR ''-'') (kc # kcs)"
      using ih e by (simp add: total_Cons)
    show "fst ` set (fst (foldl count_step (pd1, dep1) kcs)) \<subseteq> fst ` set pd \<union> set ''ACGTID''"
      using ih k by blast
    show "distinct (map fst pd) \<longrightarrow> distinct (map fst (fst (foldl count_step (pd1, dep1) kcs)))"
      using ih t by blast
  qed
qed

lemma af_loop_pass:
  "(case af_loop rb den ts ti xs (s, i) of (s', i') \<Rightarrow> s' \<or> i') =
     (s \<or> i \<or> (\<exists>x\<in>set xs. fst x \<noteq> rb
                  \<and> (if fst x \<in> set ''ID'' then ti \<le> of_nat (snd x) / of_nat den
                      else ts \<le> of_nat (snd x) / of_nat den)))"
proof (induction xs arbitrary: s i)
  case Nil
  then show ?case by simp
next
  case (Cons x xs)
  obtain item c where x: "x = (item, c)" by (cases x)
  show ?case
    unfolding x by (simp only: af_loop.simps Cons.IH split: if_splits) auto
qed

lemma pass_dict:
  assumes d: "distinct (map fst pd)" and k: "fst ` set pd \<subseteq> K" and z: "\<And>k. \<not> Q k 0"
  shows "(\<exists>x\<in>set pd. Q (fst x) (snd x)) = (\<exists>k\<in>K. Q k (dict_get pd k))"
proof
  assume "\<exists>x\<in>set pd. Q (fst x) (snd x)"
  then obtain x where x: "x \<in> set pd" "Q (fst x) (snd x)" by blast
  then have "map_of pd (fst x) = Some (snd x)" using d by simp
  then have "dict_get pd (fst x) = snd x" by (simp add: dict_get_def)
  moreover have "fst x \<in> K" using x(1) k by auto
  ultimately show "\<exists>k\<in>K. Q k (dict_get pd k)"
    using x(2) by (intro bexI [where x = "fst x"]) simp_all
next
  assume "\<exists>k\<in>K. Q k (dict_get pd k)"
  then obtain k where q: "k \<in> K" "Q k (dict_get pd k)" by blast
  then obtain c where c: "map_of pd k = Some c"
    using z [of k] by (cases "map_of pd k") (auto simp: dict_get_def)
  then have "(k, c) \<in> set pd" by (rule map_of_SomeD)
  moreover have "Q k c" using q(2) c by (simp add: dict_get_def)
  ultimately show "\<exists>x\<in>set pd. Q (fst x) (snd x)"
    by (intro bexI [where x = "(k, c)"]) simp_all
qed

lemma counted:
  "snd (foldl count_step ([], 0) (Counter bl)) = read_depth bl
   \<and> (\<forall>b\<in>set ''ACGT''. dict_get (fst (foldl count_step ([], 0) (Counter bl))) b = base_count b bl)
   \<and> dict_get (fst (foldl count_step ([], 0) (Counter bl))) CHR ''I'' = ins_count bl
   \<and> dict_get (fst (foldl count_step ([], 0) (Counter bl))) CHR ''D'' = del_count bl
   \<and> fst ` set (fst (foldl count_step ([], 0) (Counter bl))) \<subseteq> set ''ACGTID''
   \<and> distinct (map fst (fst (foldl count_step ([], 0) (Counter bl))))"
  using foldl_count_step [of "[]" 0 "Counter bl"]
  by (simp add: total_Counter read_depth_def base_count_def ins_count_def del_count_def dict_get_def)

lemma af_gate_pass:
  assumes ts: "0 < ts" and ti: "0 < ti" and rb: "rb \<in> set ''ACGT''"
  shows "\<exists>a. af_gate pr rb ts ti pl bl =
           (read_depth bl,
            (let den = (if 0 < read_depth bl then read_depth bl else 1)
             in (\<exists>b\<in>set ''ACGT''. b \<noteq> rb \<and> ts \<le> of_nat (base_count b bl) / of_nat den)
                \<or> ti \<le> of_nat (ins_count bl) / of_nat den
                \<or> ti \<le> of_nat (del_count bl) / of_nat den), a)"
proof -
  obtain pd dep where f: "foldl count_step ([], 0) (Counter bl) = (pd, dep)"
    by (cases "foldl count_step ([], 0) (Counter bl)")
  from counted [of bl] f have dep: "dep = read_depth bl"
    and bc: "\<forall>b\<in>set ''ACGT''. dict_get pd b = base_count b bl"
    and ic: "dict_get pd CHR ''I'' = ins_count bl"
    and dc: "dict_get pd CHR ''D'' = del_count bl"
    and ks: "fst ` set pd \<subseteq> set ''ACGTID''"
    and di: "distinct (map fst pd)"
    by simp_all
  define den where "den = (if 0 < read_depth bl then read_depth bl else 1)"
  define Q where "Q = (\<lambda>k (c::nat). k \<noteq> rb \<and> (if k \<in> set ''ID'' then ti \<le> of_nat c / of_nat den
                      else ts \<le> of_nat c / of_nat den))"
  have z: "\<not> Q k 0" for k using ts ti by (simp add: Q_def)
  have "(case af_loop rb den ts ti (sort_key (\<lambda>x. - int (snd x)) pd) (False, False) of
           (s', i') \<Rightarrow> s' \<or> i') = (\<exists>x\<in>set pd. Q (fst x) (snd x))"
    by (simp add: af_loop_pass Q_def)
  also have "\<dots> = (\<exists>k\<in>set ''ACGTID''. Q k (dict_get pd k))"
    using pass_dict [OF di ks, of Q] z by blast
  also have "\<dots> = ((\<exists>b\<in>set ''ACGT''. b \<noteq> rb \<and> ts \<le> of_nat (base_count b bl) / of_nat den)
                \<or> ti \<le> of_nat (ins_count bl) / of_nat den
                \<or> ti \<le> of_nat (del_count bl) / of_nat den)"
    using rb bc ic dc by (auto simp: Q_def)
  finally have p: "(case af_loop rb den ts ti (sort_key (\<lambda>x. - int (snd x)) pd) (False, False) of
           (s', i') \<Rightarrow> s' \<or> i') = ((\<exists>b\<in>set ''ACGT''. b \<noteq> rb \<and> ts \<le> of_nat (base_count b bl) / of_nat den)
                \<or> ti \<le> of_nat (ins_count bl) / of_nat den
                \<or> ti \<le> of_nat (del_count bl) / of_nat den)" .
  show ?thesis
    using p ts ti
    by (simp add: af_gate_def f dep den_def [symmetric] Let_def split: prod.splits)
qed

lemma append_candidate_gate:
  "\<not> is_known_vcf_file_provided env \<Longrightarrow> candidates_pos_set env = [] \<Longrightarrow>
     append_candidate env cands q rb dp pa =
       cands @ (if rb \<in> set ''ACGT'' \<and> pa \<and> (\<exists>d. dp = Some d \<and> min_coverage env \<le> of_nat d)
                then [q] else [])"
  by (cases dp) (auto simp: append_candidate_def Let_def)

lemma length_filter_mono:
  "(\<And>x. P x \<Longrightarrow> Q x) \<Longrightarrow> length (filter P xs) \<le> length (filter Q xs)"
  by (induction xs) auto

lemma base_count_le_depth: "b \<in> set ''ACGT'' \<Longrightarrow> base_count b bl \<le> read_depth bl"
  unfolding base_count_def read_depth_def
  by (rule length_filter_mono) blast

lemma decode_pileup_bases_Inr_loop:
  "decode_pileup_bases pr p bases rb ts ti h ctd t pl = Inr (bl, dp, pa, a) \<Longrightarrow>
     decode_loop bases [] = Inr bl"
  by (auto simp: decode_pileup_bases_def split: sum.splits if_splits prod.splits)

lemma decode_gate:
  assumes a: "0 < ts \<and> 0 < ti \<and> rb \<in> set ''ACGT'' \<and> decode_loop bases [] = Inr bl"
  shows "\<exists>a. decode_pileup_bases pr p bases rb ts ti False ctd t pl =
             Inr (bl, Some (read_depth bl),
                  (if 0 < read_depth bl then passes_af_gate rb ts ti bl
                   else ti \<le> of_nat (ins_count bl) \<or> ti \<le> of_nat (del_count bl)), a)"
proof -
  obtain x where g: "af_gate pr rb ts ti pl bl =
           (read_depth bl,
            (let den = (if 0 < read_depth bl then read_depth bl else 1)
             in (\<exists>b\<in>set ''ACGT''. b \<noteq> rb \<and> ts \<le> of_nat (base_count b bl) / of_nat den)
                \<or> ti \<le> of_nat (ins_count bl) / of_nat den
                \<or> ti \<le> of_nat (del_count bl) / of_nat den), x)"
    using a af_gate_pass [of ts ti rb pr pl bl] by blast
  have "decode_pileup_bases pr p bases rb ts ti False ctd t pl =
             Inr (bl, Some (read_depth bl),
                  (if 0 < read_depth bl then passes_af_gate rb ts ti bl
                   else ti \<le> of_nat (ins_count bl) \<or> ti \<le> of_nat (del_count bl)), x)"
  proof (cases "0 < read_depth bl")
    case True
    then show ?thesis
      using a by (simp add: decode_pileup_bases_def g passes_af_gate_def Let_def)
  next
    case False
    then have d0: "read_depth bl = 0" by simp
    have z: "base_count CHR ''A'' bl = 0" "base_count CHR ''C'' bl = 0"
        "base_count CHR ''G'' bl = 0" "base_count CHR ''T'' bl = 0"
      using base_count_le_depth [of "CHR ''A''" bl] base_count_le_depth [of "CHR ''C''" bl]
        base_count_le_depth [of "CHR ''G''" bl] base_count_le_depth [of "CHR ''T''" bl] d0
      by simp_all
    have nts: "\<not> ts \<le> 0" using a by simp
    have g0: "af_gate pr rb ts ti pl bl =
        (0, ti \<le> of_nat (ins_count bl) \<or> ti \<le> of_nat (del_count bl), x)"
      by (simp add: g d0 z nts)
    show ?thesis
      using a by (simp add: decode_pileup_bases_def g0 d0)
  qed
  then show ?thesis by blast
qed

lemma after_names_cands:
  "after_names env t ph st row rb bl dp pa a names = Inr (st', y) \<Longrightarrow>
     candidate_pos_list st' = candidate_pos_list st
     \<or> candidate_pos_list st' = append_candidate env (candidate_pos_list st) (row_pos row) rb dp pa"
  by (auto simp: after_names_def Let_def bind_err_def split: if_splits sum.splits)

lemma row_step_cands:
  assumes r: "row_step env t ph st row = Inr (st', y)"
  shows "candidate_pos_list st' = candidate_pos_list st
     \<or> (\<exists>c bl dp pa a.
           py_get (reference_sequence env) (row_pos row - reference_start env) = Inr c
           \<and> upper c \<in> set ''ACGT''
           \<and> decode_pileup_bases (prm env) (row_pos row) (row_pileup_bases row) (upper c)
                (minimum_snv_af_for_candidate env) (minimum_indel_af_for_candidate env)
                (candidates_pos_set env \<noteq> []) (candidates_type_dict env) t ''ont''
               = Inr (bl, dp, pa, a)
           \<and> candidate_pos_list st'
               = append_candidate env (candidate_pos_list st) (row_pos row) (upper c) dp pa)"
proof (cases "candidate_pos_list st' = candidate_pos_list st")
  case True
  then show ?thesis by simp
next
  case False
  obtain c where c: "py_get (reference_sequence env) (row_pos row - reference_start env) = Inr c"
    using r False
    by (cases "py_get (reference_sequence env) (row_pos row - reference_start env)")
       (auto simp: row_step_def Let_def bind_err_def split: if_splits)
  have u: "upper c \<in> set ''ACGT''"
    using r c False by (auto simp: row_step_def Let_def bind_err_def split: if_splits)
  obtain v where d: "decode_pileup_bases (prm env) (row_pos row) (row_pileup_bases row) (upper c)
                (minimum_snv_af_for_candidate env) (minimum_indel_af_for_candidate env)
                (candidates_pos_set env \<noteq> []) (candidates_type_dict env) t ''ont'' = Inr v"
    using r c u False
    by (cases "decode_pileup_bases (prm env) (row_pos row) (row_pileup_bases row) (upper c)
                (minimum_snv_af_for_candidate env) (minimum_indel_af_for_candidate env)
                (candidates_pos_set env \<noteq> []) (candidates_type_dict env) t ''ont''")
       (auto simp: row_step_def Let_def bind_err_def split: if_splits)
  obtain bl dp pa a where v: "v = (bl, dp, pa, a)" by (cases v)
  obtain names where "after_names env t ph st row (upper c) bl dp pa a names = Inr (st', y)"
    using r c d v u False
    by (auto simp: row_step_def Let_def bind_err_def split: if_splits sum.splits)
  from after_names_cands [OF this] False
  have "candidate_pos_list st'
           = append_candidate env (candidate_pos_list st) (row_pos row) (upper c) dp pa"
    by simp
  with c d v u show ?thesis by blast
qed

lemma row_step_appended:
  assumes ts: "0 < minimum_snv_af_for_candidate env" and ti: "0 < minimum_indel_af_for_candidate env"
    and k: "\<not> is_known_vcf_file_provided env" and n: "candidates_pos_set env = []"
    and r: "row_step env t ph st row = Inr (st', y)"
    and ne: "candidate_pos_list st' \<noteq> candidate_pos_list st"
  shows "candidate_pos_list st' = candidate_pos_list st @ [row_pos row]
     \<and> (\<exists>c bl. py_get (reference_sequence env) (row_pos row - reference_start env) = Inr c
          \<and> decode_loop (row_pileup_bases row) [] = Inr bl
          \<and> (if 0 < read_depth bl
              then passes_af_gate (upper c) (minimum_snv_af_for_candidate env)
                     (minimum_indel_af_for_candidate env) bl
              else minimum_indel_af_for_candidate env \<le> of_nat (ins_count bl)
                   \<or> minimum_indel_af_for_candidate env \<le> of_nat (del_count bl))
          \<and> min_coverage env \<le> of_nat (read_depth bl))"
proof -
  from row_step_cands [OF r] ne obtain c bl dp pa a where
    c: "py_get (reference_sequence env) (row_pos row - reference_start env) = Inr c"
    and u: "upper c \<in> set ''ACGT''"
    and d: "decode_pileup_bases (prm env) (row_pos row) (row_pileup_bases row) (upper c)
                (minimum_snv_af_for_candidate env) (minimum_indel_af_for_candidate env)
                (candidates_pos_set env \<noteq> []) (candidates_type_dict env) t ''ont''
               = Inr (bl, dp, pa, a)"
    and l: "candidate_pos_list st'
               = append_candidate env (candidate_pos_list st) (row_pos row) (upper c) dp pa"
    by blast
  have dl: "decode_loop (row_pileup_bases row) [] = Inr bl"
    using decode_pileup_bases_Inr_loop [OF d] .
  obtain a' where g: "decode_pileup_bases (prm env) (row_pos row) (row_pileup_bases row) (upper c)
                (minimum_snv_af_for_candidate env) (minimum_indel_af_for_candidate env)
                False (candidates_type_dict env) t ''ont''
      = Inr (bl, Some (read_depth bl),
             (if 0 < read_depth bl
              then passes_af_gate (upper c) (minimum_snv_af_for_candidate env)
                     (minimum_indel_af_for_candidate env) bl
              else minimum_indel_af_for_candidate env \<le> of_nat (ins_count bl)
                   \<or> minimum_indel_af_for_candidate env \<le> of_nat (del_count bl)), a')"
    using decode_gate [of "minimum_snv_af_for_candidate env" "minimum_indel_af_for_candidate env"
        "upper c" "row_pileup_bases row" bl "prm env" "row_pos row" "candidates_type_dict env" t "''ont''"]
      ts ti u dl by blast
  have e: "dp = Some (read_depth bl)"
      "pa = (if 0 < read_depth bl
              then passes_af_gate (upper c) (minimum_snv_af_for_candidate env)
                     (minimum_indel_af_for_candidate env) bl
              else minimum_indel_af_for_candidate env \<le> of_nat (ins_count bl)
                   \<or> minimum_indel_af_for_candidate env \<le> of_nat (del_count bl))"
    using d g n by simp_all
  have ap: "candidate_pos_list st' = candidate_pos_list st @
       (if upper c \<in> set ''ACGT'' \<and> pa \<and> (\<exists>d. dp = Some d \<and> min_coverage env \<le> of_nat d)
        then [row_pos row] else [])"
    using l append_candidate_gate [OF k n, of "candidate_pos_list st" "row_pos row" "upper c" dp pa]
    by simp
  have cond: "pa \<and> (\<exists>d. dp = Some d \<and> min_coverage env \<le> of_nat d)"
    using ap ne by (auto split: if_splits)
  have l2: "candidate_pos_list st' = candidate_pos_list st @ [row_pos row]"
    using ap cond u by simp
  have mc: "min_coverage env \<le> of_nat (read_depth bl)" using cond e(1) by simp
  have pg: "if 0 < read_depth bl
              then passes_af_gate (upper c) (minimum_snv_af_for_candidate env)
                     (minimum_indel_af_for_candidate env) bl
              else minimum_indel_af_for_candidate env \<le> of_nat (ins_count bl)
                   \<or> minimum_indel_af_for_candidate env \<le> of_nat (del_count bl)"
    using cond e(2) by simp
  show ?thesis using l2 c dl pg mc by blast
qed

text \<open>
  Claim C5, as the code has it. With positive thresholds and no candidate set, a bases
  string that decodes gives the depth of the specification, and \<open>pass_af\<close> is the gate
  of the specification when the depth is positive. At depth 0 (reads with base \<open>N\<close>
  only) the code divides by 1, so that the gate passes when the number of insertions or
  of deletions reaches the indel threshold. Without known variants and candidates, a row
  of the generator appends its position to the candidates only when \<open>pass_af\<close>
  holds and the depth is at least \<open>min_coverage\<close>; the test that appends it is these
  two conditions and the reference base being one of \<open>A, C, G, T\<close>.
\<close>

theorem af_gate_and_candidate:
  "(0 < ts \<and> 0 < ti \<and> rb \<in> set ''ACGT'' \<and> decode_loop bases [] = Inr bl
     \<longrightarrow> (\<exists>a. decode_pileup_bases pr p bases rb ts ti False ctd t pl =
             Inr (bl, Some (read_depth bl),
                  (if 0 < read_depth bl then passes_af_gate rb ts ti bl
                   else ti \<le> of_nat (ins_count bl) \<or> ti \<le> of_nat (del_count bl)), a)))
   \<and> (\<not> is_known_vcf_file_provided env \<and> candidates_pos_set env = []
     \<longrightarrow> append_candidate env cands q rb dp pa =
         cands @ (if rb \<in> set ''ACGT'' \<and> pa \<and> (\<exists>d. dp = Some d \<and> min_coverage env \<le> of_nat d)
                  then [q] else []))
   \<and> (0 < minimum_snv_af_for_candidate env \<and> 0 < minimum_indel_af_for_candidate env
      \<and> \<not> is_known_vcf_file_provided env \<and> candidates_pos_set env = []
      \<and> row_step env t ph st row = Inr (st', y)
      \<and> candidate_pos_list st' \<noteq> candidate_pos_list st
     \<longrightarrow> candidate_pos_list st' = candidate_pos_list st @ [row_pos row]
        \<and> (\<exists>c bl. py_get (reference_sequence env) (row_pos row - reference_start env) = Inr c
             \<and> decode_loop (row_pileup_bases row) [] = Inr bl
             \<and> (if 0 < read_depth bl
                 then passes_af_gate (upper c) (minimum_snv_af_for_candidate env)
                        (minimum_indel_af_for_candidate env) bl
                 else minimum_indel_af_for_candidate env \<le> of_nat (ins_count bl)
                      \<or> minimum_indel_af_for_candidate env \<le> of_nat (del_count bl))
             \<and> min_coverage env \<le> of_nat (read_depth bl)))"
proof (intro conjI impI)
  assume a: "0 < ts \<and> 0 < ti \<and> rb \<in> set ''ACGT'' \<and> decode_loop bases [] = Inr bl"
  then show "\<exists>a. decode_pileup_bases pr p bases rb ts ti False ctd t pl =
             Inr (bl, Some (read_depth bl),
                  (if 0 < read_depth bl then passes_af_gate rb ts ti bl
                   else ti \<le> of_nat (ins_count bl) \<or> ti \<le> of_nat (del_count bl)), a)"
    by (rule decode_gate)
next
  assume "\<not> is_known_vcf_file_provided env \<and> candidates_pos_set env = []"
  then show "append_candidate env cands q rb dp pa =
         cands @ (if rb \<in> set ''ACGT'' \<and> pa \<and> (\<exists>d. dp = Some d \<and> min_coverage env \<le> of_nat d)
                  then [q] else [])"
    using append_candidate_gate [of env cands q rb dp pa] by blast
next
  assume a: "0 < minimum_snv_af_for_candidate env \<and> 0 < minimum_indel_af_for_candidate env
      \<and> \<not> is_known_vcf_file_provided env \<and> candidates_pos_set env = []
      \<and> row_step env t ph st row = Inr (st', y)
      \<and> candidate_pos_list st' \<noteq> candidate_pos_list st"
  have b: "candidate_pos_list st' = candidate_pos_list st @ [row_pos row]
     \<and> (\<exists>c bl. py_get (reference_sequence env) (row_pos row - reference_start env) = Inr c
          \<and> decode_loop (row_pileup_bases row) [] = Inr bl
          \<and> (if 0 < read_depth bl
              then passes_af_gate (upper c) (minimum_snv_af_for_candidate env)
                     (minimum_indel_af_for_candidate env) bl
              else minimum_indel_af_for_candidate env \<le> of_nat (ins_count bl)
                   \<or> minimum_indel_af_for_candidate env \<le> of_nat (del_count bl))
          \<and> min_coverage env \<le> of_nat (read_depth bl))"
    using a row_step_appended [of env t ph st row st' y] by blast
  from b show "candidate_pos_list st' = candidate_pos_list st @ [row_pos row]" by blast
  from b show "\<exists>c bl. py_get (reference_sequence env) (row_pos row - reference_start env) = Inr c
             \<and> decode_loop (row_pileup_bases row) [] = Inr bl
             \<and> (if 0 < read_depth bl
                 then passes_af_gate (upper c) (minimum_snv_af_for_candidate env)
                        (minimum_indel_af_for_candidate env) bl
                 else minimum_indel_af_for_candidate env \<le> of_nat (ins_count bl)
                      \<or> minimum_indel_af_for_candidate env \<le> of_nat (del_count bl))
             \<and> min_coverage env \<le> of_nat (read_depth bl)" by blast
qed

theorem af_gate_and_candidate_witness:
  "decode_loop ''AAt'' [] = Inr [(CHR ''A'', []), (CHR ''A'', []), (CHR ''t'', [])]
   \<and> read_depth [(CHR ''A'', []), (CHR ''A'', []), (CHR ''t'', [])] = 3
   \<and> passes_af_gate CHR ''T'' (1 / 10) (1 / 10) [(CHR ''A'', []), (CHR ''A'', []), (CHR ''t'', [])]
   \<and> (\<exists>a. decode_pileup_bases ex_prm 12 ''AAt'' CHR ''T'' (1 / 10) (1 / 10) False Map.empty True ''ont''
           = Inr ([(CHR ''A'', []), (CHR ''A'', []), (CHR ''t'', [])], Some 3, True, a))
   \<and> append_candidate ex_env [] 12 CHR ''T'' (Some 3) True = [12]
   \<and> (\<exists>s y. row_step ex_env True False (ex_state []) (ex_row 12 ''AAt'' ''r1,r2,r3'') = Inr (s, y)
          \<and> candidate_pos_list s = [12]
          \<and> (\<exists>c bl. py_get (reference_sequence ex_env) 11 = Inr c
                \<and> decode_loop ''AAt'' [] = Inr bl
                \<and> passes_af_gate (upper c) (1 / 10) (1 / 10) bl
                \<and> 1 \<le> rat_of_nat (read_depth bl)))"
proof -
  have d: "decode_loop ''AAt'' [] = Inr [(CHR ''A'', []), (CHR ''A'', []), (CHR ''t'', [])]"
    by code_simp
  have r: "read_depth [(CHR ''A'', []), (CHR ''A'', []), (CHR ''t'', [])] = 3" by code_simp
  have g: "passes_af_gate CHR ''T'' (1 / 10) (1 / 10) [(CHR ''A'', []), (CHR ''A'', []), (CHR ''t'', [])]"
    by code_simp
  have e: "\<not> is_known_vcf_file_provided ex_env" "candidates_pos_set ex_env = []"
      "min_coverage ex_env = 1" "minimum_snv_af_for_candidate ex_env = 1 / 10"
      "minimum_indel_af_for_candidate ex_env = 1 / 10"
    by (simp_all add: ex_env_def)
  have c: "CHR ''T'' \<in> set ''ACGT''" by simp
  have f: "(\<exists>a. decode_pileup_bases ex_prm 12 ''AAt'' CHR ''T'' (1 / 10) (1 / 10) False Map.empty True ''ont''
           = Inr ([(CHR ''A'', []), (CHR ''A'', []), (CHR ''t'', [])], Some 3, True, a))
       \<and> append_candidate ex_env [] 12 CHR ''T'' (Some 3) True = [12]"
    using d r g e c
      af_gate_and_candidate [where ts = "1 / 10" and ti = "1 / 10" and rb = "CHR ''T''"
        and bases = "''AAt''" and bl = "[(CHR ''A'', []), (CHR ''A'', []), (CHR ''t'', [])]"
        and pr = ex_prm and p = 12 and ctd = Map.empty and t = True and pl = "''ont''"
        and env = ex_env and cands = "[]" and q = 12 and dp = "Some 3" and pa = True
        and st = "ex_state []" and st' = "ex_state []" and ph = False
        and row = "ex_row 12 ''AAt'' ''r1,r2,r3''" and y = None]
    by simp
  have "case row_step ex_env True False (ex_state []) (ex_row 12 ''AAt'' ''r1,r2,r3'') of
          Inl e \<Rightarrow> False | Inr (s, y) \<Rightarrow> candidate_pos_list s = [12]"
    by code_simp
  then obtain s y where s: "row_step ex_env True False (ex_state []) (ex_row 12 ''AAt'' ''r1,r2,r3'') = Inr (s, y)"
      "candidate_pos_list s = [12]"
    by (auto split: sum.splits prod.splits)
  have n: "candidate_pos_list (ex_state []) = []" "row_pos (ex_row 12 ''AAt'' ''r1,r2,r3'') = 12"
      "row_pileup_bases (ex_row 12 ''AAt'' ''r1,r2,r3'') = ''AAt''" "reference_start ex_env = 1"
    by (simp_all add: ex_state_def ex_row_def ex_env_def)
  have pre: "0 < minimum_snv_af_for_candidate ex_env \<and> 0 < minimum_indel_af_for_candidate ex_env
      \<and> \<not> is_known_vcf_file_provided ex_env \<and> candidates_pos_set ex_env = []
      \<and> row_step ex_env True False (ex_state []) (ex_row 12 ''AAt'' ''r1,r2,r3'') = Inr (s, y)
      \<and> candidate_pos_list s \<noteq> candidate_pos_list (ex_state [])"
    using s e n by simp
  have i: "\<exists>c bl. py_get (reference_sequence ex_env)
                 (row_pos (ex_row 12 ''AAt'' ''r1,r2,r3'') - reference_start ex_env) = Inr c
             \<and> decode_loop (row_pileup_bases (ex_row 12 ''AAt'' ''r1,r2,r3'')) [] = Inr bl
             \<and> (if 0 < read_depth bl
                 then passes_af_gate (upper c) (minimum_snv_af_for_candidate ex_env)
                        (minimum_indel_af_for_candidate ex_env) bl
                 else minimum_indel_af_for_candidate ex_env \<le> of_nat (ins_count bl)
                      \<or> minimum_indel_af_for_candidate ex_env \<le> of_nat (del_count bl))
             \<and> min_coverage ex_env \<le> of_nat (read_depth bl)"
    using af_gate_and_candidate [where env = ex_env and t = True and ph = False
        and st = "ex_state []" and row = "ex_row 12 ''AAt'' ''r1,r2,r3''" and st' = s and y = y
        and ts = 1 and ti = 1 and rb = "CHR ''T''" and bases = "[]" and bl = "[]" and pr = ex_prm
        and p = 0 and ctd = Map.empty and pl = "[]" and cands = "[]" and q = 0 and dp = None
        and pa = False] pre
    by blast
  then obtain c bl where
    i1: "py_get (reference_sequence ex_env)
                 (row_pos (ex_row 12 ''AAt'' ''r1,r2,r3'') - reference_start ex_env) = Inr c"
    and i2: "decode_loop (row_pileup_bases (ex_row 12 ''AAt'' ''r1,r2,r3'')) [] = Inr bl"
    and i3: "if 0 < read_depth bl
                 then passes_af_gate (upper c) (minimum_snv_af_for_candidate ex_env)
                        (minimum_indel_af_for_candidate ex_env) bl
                 else minimum_indel_af_for_candidate ex_env \<le> of_nat (ins_count bl)
                      \<or> minimum_indel_af_for_candidate ex_env \<le> of_nat (del_count bl)"
    and i4: "min_coverage ex_env \<le> of_nat (read_depth bl)"
    by blast
  have j4: "1 \<le> rat_of_nat (read_depth bl)" using i4 unfolding e(3) .
  then have pos: "0 < read_depth bl" by (cases "read_depth bl") simp_all
  have j3: "passes_af_gate (upper c) (1 / 10) (1 / 10) bl"
    using i3 pos unfolding e(4) e(5) by simp
  have j1: "py_get (reference_sequence ex_env) 11 = Inr c" using i1 unfolding n by simp
  have j2: "decode_loop ''AAt'' [] = Inr bl" using i2 unfolding n .
  have h: "\<exists>c bl. py_get (reference_sequence ex_env) 11 = Inr c
                \<and> decode_loop ''AAt'' [] = Inr bl
                \<and> passes_af_gate (upper c) (1 / 10) (1 / 10) bl
                \<and> 1 \<le> rat_of_nat (read_depth bl)"
    using j1 j2 j3 j4 by blast
  show ?thesis using d r g f s h by blast
qed

text \<open>
  The claim as the specification states it fails at depth 0. The row \<open>N+1A\<close> has no
  read that counts for the depth, so no quotient by the depth reaches a threshold, but
  \<open>pass_af\<close> is true.
\<close>

theorem af_gate_and_candidate_counterexample:
  "read_depth [(CHR ''N'', ''+A'')] = 0
   \<and> \<not> passes_af_gate CHR ''A'' (1 / 10) (1 / 10) [(CHR ''N'', ''+A'')]
   \<and> decode_pileup_bases ex_prm 5 ''N+1A'' CHR ''A'' (1 / 10) (1 / 10) False Map.empty True ''ont''
       = Inr ([(CHR ''N'', ''+A'')], Some 0, True, 1)"
  by code_simp

section \<open>Properties of the het-SNP phasing selector\<close>












section \<open>Properties of the read ordering\<close>

lemma annotate_length: "length (fst (annotate ht hs k names)) = length names"
proof (induction names arbitrary: ht hs k)
  case Nil
  then show ?case by simp
next
  case (Cons n names)
  obtain a ht1 where a: "defaultdict_get ht n = (a, ht1)" by (cases "defaultdict_get ht n")
  obtain b hs1 where b: "defaultdict_get hs n = (b, hs1)" by (cases "defaultdict_get hs n")
  have "fst (annotate ht hs k (n # names)) = (max a b, k, n) # fst (annotate ht1 hs1 (k + 1) names)"
    using a b by (simp split: prod.splits)
  then show ?case using Cons.IH [of ht1 hs1 "k + 1"] by simp
qed

lemma annotate_set:
  "x \<in> set (fst (annotate ht hs k names)) \<Longrightarrow>
     k \<le> fst (snd x) \<and> fst (snd x) < k + length names \<and> snd (snd x) = names ! (fst (snd x) - k)"
proof (induction names arbitrary: ht hs k)
  case Nil
  then show ?case by simp
next
  case (Cons n names)
  obtain a ht1 where a: "defaultdict_get ht n = (a, ht1)" by (cases "defaultdict_get ht n")
  obtain b hs1 where b: "defaultdict_get hs n = (b, hs1)" by (cases "defaultdict_get hs n")
  from Cons.prems a b
  have "x = (max a b, k, n) \<or> x \<in> set (fst (annotate ht1 hs1 (k + 1) names))"
    by (auto split: prod.splits)
  then show ?case
  proof
    assume "x = (max a b, k, n)"
    then show ?thesis by simp
  next
    assume "x \<in> set (fst (annotate ht1 hs1 (k + 1) names))"
    from Cons.IH [OF this]
    have j: "k + 1 \<le> fst (snd x)" "fst (snd x) < k + 1 + length names"
        "snd (snd x) = names ! (fst (snd x) - (k + 1))"
      by simp_all
    have "fst (snd x) - k = Suc (fst (snd x) - (k + 1))" using j(1) by arith
    then show ?thesis using j by simp
  qed
qed

lemma sorted_by_hap_read_name_sampled:
  assumes d: "max_depth < length (fromkeys (nearby_read_names pr c pileup))"
  shows "sorted_by_hap_read_name rnd pr g c ht pileup hs max_depth False =
     (let u = fromkeys (nearby_read_names pr c pileup);
          s = sample rnd (seed rnd 0) (length u) max_depth;
          r = annotate ht hs 0 (map (\<lambda>i. u ! i) (sort (fst s)))
      in (sort_key (\<lambda>x. (fst x, fst (snd x))) (fst r), fst (snd r), snd (snd r), snd s))"
  using d by (simp add: sorted_by_hap_read_name_def Let_def split: prod.splits)

text \<open>
  Claim C6. When the window holds more distinct read names than \<open>max_depth\<close> and the
  tensor-sample mode is off, the result does not depend on the state of the random
  generator before the call (the generator is seeded with 0 first), so two runs on the
  same input return the same list; the list has exactly \<open>max_depth\<close> entries; the
  picked indices, once sorted, are increasing and different, and the entry with index
  \<open>k\<close> carries the read name at the \<open>k\<close>-th picked index.
\<close>

theorem subsample_deterministic:
  "sample_contract rnd
   \<and> max_depth < length (fromkeys (nearby_read_names pr c pileup))
   \<longrightarrow>
     sorted_by_hap_read_name rnd pr g1 c ht pileup hs max_depth False
       = sorted_by_hap_read_name rnd pr g2 c ht pileup hs max_depth False
   \<and> length (fst (sorted_by_hap_read_name rnd pr g1 c ht pileup hs max_depth False)) = max_depth
   \<and> (let u = fromkeys (nearby_read_names pr c pileup);
           idx = sort (fst (sample rnd (seed rnd 0) (length u) max_depth))
       in length idx = max_depth \<and> sorted idx \<and> distinct idx \<and> (\<forall>i\<in>set idx. i < length u)
          \<and> (\<forall>x\<in>set (fst (sorted_by_hap_read_name rnd pr g1 c ht pileup hs max_depth False)).
                fst (snd x) < max_depth \<and> snd (snd x) = u ! (idx ! fst (snd x))))"
proof (intro impI)
  assume h: "sample_contract rnd
   \<and> max_depth < length (fromkeys (nearby_read_names pr c pileup))"
  define u where "u = fromkeys (nearby_read_names pr c pileup)"
  define idx where "idx = sort (fst (sample rnd (seed rnd 0) (length u) max_depth))"
  from h have d: "max_depth < length u" and sc: "sample_contract rnd" by (simp_all add: u_def)
  have s: "length (fst (sample rnd (seed rnd 0) (length u) max_depth)) = max_depth"
      "distinct (fst (sample rnd (seed rnd 0) (length u) max_depth))"
      "\<forall>i\<in>set (fst (sample rnd (seed rnd 0) (length u) max_depth)). i < length u"
    using sc [unfolded sample_contract_def, rule_format, of max_depth "length u" "seed rnd 0"] d
    by simp_all
  have i: "length idx = max_depth" "sorted idx" "distinct idx" "\<forall>i\<in>set idx. i < length u"
    using s by (simp_all add: idx_def)
  have e: "sorted_by_hap_read_name rnd pr g c ht pileup hs max_depth False =
     (sort_key (\<lambda>x. (fst x, fst (snd x))) (fst (annotate ht hs 0 (map (\<lambda>i. u ! i) idx))),
      fst (snd (annotate ht hs 0 (map (\<lambda>i. u ! i) idx))),
      snd (snd (annotate ht hs 0 (map (\<lambda>i. u ! i) idx))),
      snd (sample rnd (seed rnd 0) (length u) max_depth))" for g
    using sorted_by_hap_read_name_sampled [of max_depth pr c pileup rnd g ht hs] d
    by (simp add: u_def idx_def Let_def)
  have l: "length (fst (sorted_by_hap_read_name rnd pr g1 c ht pileup hs max_depth False)) = max_depth"
    by (simp add: e annotate_length i)
  have m: "\<forall>x\<in>set (fst (sorted_by_hap_read_name rnd pr g1 c ht pileup hs max_depth False)).
                fst (snd x) < max_depth \<and> snd (snd x) = u ! (idx ! fst (snd x))"
  proof
    fix x assume "x \<in> set (fst (sorted_by_hap_read_name rnd pr g1 c ht pileup hs max_depth False))"
    then have "x \<in> set (fst (annotate ht hs 0 (map (\<lambda>i. u ! i) idx)))" by (simp add: e)
    from annotate_set [OF this] show "fst (snd x) < max_depth \<and> snd (snd x) = u ! (idx ! fst (snd x))"
      using i by simp
  qed
  show "sorted_by_hap_read_name rnd pr g1 c ht pileup hs max_depth False
       = sorted_by_hap_read_name rnd pr g2 c ht pileup hs max_depth False
   \<and> length (fst (sorted_by_hap_read_name rnd pr g1 c ht pileup hs max_depth False)) = max_depth
   \<and> (let u = fromkeys (nearby_read_names pr c pileup);
           idx = sort (fst (sample rnd (seed rnd 0) (length u) max_depth))
       in length idx = max_depth \<and> sorted idx \<and> distinct idx \<and> (\<forall>i\<in>set idx. i < length u)
          \<and> (\<forall>x\<in>set (fst (sorted_by_hap_read_name rnd pr g1 c ht pileup hs max_depth False)).
                fst (snd x) < max_depth \<and> snd (snd x) = u ! (idx ! fst (snd x))))"
    using l m i e [of g1] e [of g2] unfolding Let_def u_def [symmetric] idx_def [symmetric]
    by simp
qed

lemma ex_random_contract: "sample_contract ex_random"
  by (auto simp: sample_contract_def ex_random_def)

theorem subsample_deterministic_witness:
  "sample_contract ex_random
   \<and> fromkeys (nearby_read_names ex_prm 11 ex_pileup) = [''r1'', ''r2'', ''r3'', ''r4'']
   \<and> sorted_by_hap_read_name ex_random ex_prm 7 11 [] ex_pileup [] 2 False
       = sorted_by_hap_read_name ex_random ex_prm 8 11 [] ex_pileup [] 2 False
   \<and> fst (sorted_by_hap_read_name ex_random ex_prm 7 11 [] ex_pileup [] 2 False)
       = [(0, 0, ''r3''), (0, 1, ''r4'')]
   \<and> length (fst (sorted_by_hap_read_name ex_random ex_prm 7 11 [] ex_pileup [] 2 False)) = 2"
proof -
  have u: "fromkeys (nearby_read_names ex_prm 11 ex_pileup) = [''r1'', ''r2'', ''r3'', ''r4'']"
    by code_simp
  have v: "fst (sorted_by_hap_read_name ex_random ex_prm 7 11 [] ex_pileup [] 2 False)
       = [(0, 0, ''r3''), (0, 1, ''r4'')]"
    by code_simp
  show ?thesis
    using ex_random_contract u v
      subsample_deterministic [where rnd = ex_random and max_depth = 2 and pr = ex_prm and c = 11
        and pileup = ex_pileup and ?g1.0 = 7 and ?g2.0 = 8 and ht = "[]" and hs = "[]"]
    by simp
qed

end
